theory Spec2Isabelle
  imports Complex_Main "HOL-Library.AList"
begin

section \<open>Program state\<close>

text \<open>
  The program of \<^verbatim>\<open>main.cpp\<close> is a lexer and a recursive-descent parser that
  communicate through file-scope variables. The model passes these variables around
  explicitly, together with the two streams the program touches: the unread part of
  standard input and the bytes written to standard error.

  Characters read by \<^verbatim>\<open>getchar\<close> are values of type \<^typ>\<open>int\<close>: a byte
  \<open>0..255\<close>, or \<open>EOF\<close>. Tokens are \<^typ>\<open>int\<close> too: a negative enumerator of
  \<^verbatim>\<open>enum Token\<close>, or the value of the character itself.
\<close>

abbreviation (input) EOF :: int where "EOF \<equiv> - 1"

abbreviation (input) tok_eof :: int where "tok_eof \<equiv> - 1"
abbreviation (input) tok_def :: int where "tok_def \<equiv> - 2"
abbreviation (input) tok_extern :: int where "tok_extern \<equiv> - 3"
abbreviation (input) tok_identifier :: int where "tok_identifier \<equiv> - 4"
abbreviation (input) tok_number :: int where "tok_number \<equiv> - 5"

text \<open>The value of a character literal such as \<^verbatim>\<open>'('\<close> in an \<^verbatim>\<open>int\<close> context.\<close>

abbreviation ord :: "char \<Rightarrow> int" where "ord c \<equiv> of_char c"

text \<open>
  A \<^verbatim>\<open>double\<close> as far as the program can produce one: \<^verbatim>\<open>strtod\<close> is only ever
  applied to a string of digits and dots, so the value is a non-negative finite binary64
  number (kept as the rational it denotes) or the overflow value \<^verbatim>\<open>HUGE_VAL\<close>.
\<close>

datatype double = Double rat | HUGE_VAL

record state =
  stdin :: "char list"
  stderr :: "char list"
  LastChar :: int
  IdentifierStr :: string
  NumVal :: double
  CurTok :: int
  BinopPrecedence :: "(char \<times> int) list"

section \<open>C library functions used by the lexer\<close>

text \<open>
  The program never calls \<^verbatim>\<open>setlocale\<close>, so the character classification
  functions are those of the "C" locale (ISO C 7.4): \<^verbatim>\<open>isspace\<close> holds for space,
  form feed, new-line, carriage return, horizontal tab and vertical tab;
  \<^verbatim>\<open>isalpha\<close> for the 52 Latin letters; \<^verbatim>\<open>isdigit\<close> for the ten decimal digits.
  All of them are false for \<open>EOF\<close>.
\<close>

definition isspace :: "int \<Rightarrow> bool" where
  "isspace c \<longleftrightarrow> c = 32 \<or> (9 \<le> c \<and> c \<le> 13)"

definition isalpha :: "int \<Rightarrow> bool" where
  "isalpha c \<longleftrightarrow> (ord CHR ''A'' \<le> c \<and> c \<le> ord CHR ''Z'') \<or> (ord CHR ''a'' \<le> c \<and> c \<le> ord CHR ''z'')"

definition isdigit :: "int \<Rightarrow> bool" where
  "isdigit c \<longleftrightarrow> ord CHR ''0'' \<le> c \<and> c \<le> ord CHR ''9''"

definition isalnum :: "int \<Rightarrow> bool" where
  "isalnum c \<longleftrightarrow> isalpha c \<or> isdigit c"

definition isascii :: "int \<Rightarrow> bool" where
  "isascii c \<longleftrightarrow> 0 \<le> c \<and> c \<le> 127"

text \<open>
  \<^verbatim>\<open>getchar\<close>: the next byte of standard input, or \<open>EOF\<close> once it is exhausted
  (and again on every later call).
\<close>

definition getchar :: "state \<Rightarrow> int \<times> state" where
  "getchar s = (case stdin s of [] \<Rightarrow> (EOF, s) | c # cs \<Rightarrow> (ord c, s\<lparr>stdin := cs\<rparr>))"

text \<open>
  \<^verbatim>\<open>strtod\<close> on the strings the lexer builds (characters \<open>0-9\<close> and \<open>.\<close> only):
  the subject sequence is the longest prefix of the form digits, digits \<open>.\<close> digits or
  \<open>.\<close> digits with at least one digit; without one, no conversion is performed and the
  result is zero. The decimal value is rounded to the nearest binary64 number, ties to
  even, and a value too large for binary64 gives \<^verbatim>\<open>HUGE_VAL\<close>.
\<close>

definition digit_chars :: "string \<Rightarrow> string" where
  "digit_chars str = takeWhile (\<lambda>c. isdigit (ord c)) str"

definition digits_value :: "string \<Rightarrow> nat" where
  "digits_value ds = foldl (\<lambda>a c. 10 * a + nat (ord c - ord CHR ''0'')) 0 ds"

fun bit_length :: "nat \<Rightarrow> nat" where
  "bit_length n = (if n = 0 then 0 else Suc (bit_length (n div 2)))"

definition pow2 :: "int \<Rightarrow> rat" where
  "pow2 k = (if 0 \<le> k then 2 ^ nat k else 1 / 2 ^ nat (- k))"

definition round_half_even :: "rat \<Rightarrow> int" where
  "round_half_even q =
     (let f = \<lfloor>q\<rfloor>; r = q - of_int f
      in if r < 1 / 2 then f else if 1 / 2 < r then f + 1 else if even f then f else f + 1)"

definition floor_log2 :: "rat \<Rightarrow> int" where
  "floor_log2 q =
     (let (a, b) = quotient_of q;
          k = int (bit_length (nat a)) - int (bit_length (nat b))
      in if pow2 k \<le> q then k else k - 1)"

text \<open>The least value that no longer rounds to a finite binary64 number.\<close>

definition binary64_overflow :: rat where
  "binary64_overflow = 2 ^ 1024"

lemma binary64_overflow_code [code]:
  "binary64_overflow = 179769313486231590772930519078902473361797697894230657273430081157732675805500963132708477322407536021120113879871393357658789768814416622492847430639474124377767893424865485276302219601246094119453082952085005768838150682342462881473913110540827237163350510684586298239947245938479716304835356329624224137216"
  by (simp add: binary64_overflow_def)

definition binary64 :: "rat \<Rightarrow> double" where
  "binary64 q =
     (if q \<le> 0 then Double 0
      else let e = max (floor_log2 q - 52) (- 1074);
               v = of_int (round_half_even (q / pow2 e)) * pow2 e
           in if binary64_overflow \<le> v then HUGE_VAL else Double v)"

definition strtod :: "string \<Rightarrow> double" where
  "strtod str =
     (let ip = digit_chars str;
          rest = drop (length ip) str;
          fp = (case rest of [] \<Rightarrow> [] | c # cs \<Rightarrow> if c = CHR ''.'' then digit_chars cs else [])
      in if ip = [] \<and> fp = [] then Double 0
         else binary64 (of_nat (digits_value (ip @ fp)) / 10 ^ length fp))"

section \<open>Lexer\<close>

text \<open>The assignment \<^verbatim>\<open>LastChar = getchar()\<close>.\<close>

definition read_LastChar :: "state \<Rightarrow> state" where
  "read_LastChar s = (let (c, s') = getchar s in s'\<lparr>LastChar := c\<rparr>)"

text \<open>
  The number of characters the lexer can still look at: the buffered one (unless it is
  \<open>EOF\<close>) and the unread input. Every loop of the lexer decreases it.
\<close>

definition pending :: "state \<Rightarrow> nat" where
  "pending s = length (stdin s) + (if LastChar s = EOF then 0 else 1)"

lemma pending_read_LastChar_le: "pending (read_LastChar s) \<le> pending s"
  by (simp add: pending_def read_LastChar_def getchar_def split: list.splits)

lemma pending_read_LastChar_less:
  "LastChar s \<noteq> EOF \<Longrightarrow> pending (read_LastChar s) < pending s"
  by (simp add: pending_def read_LastChar_def getchar_def split: list.splits)

lemma isspace_not_EOF: "isspace c \<Longrightarrow> c \<noteq> EOF"
  by (auto simp: isspace_def)

lemma isalpha_not_EOF: "isalpha c \<Longrightarrow> c \<noteq> EOF"
  by (auto simp: isalpha_def)

lemma isdigit_not_EOF: "isdigit c \<Longrightarrow> c \<noteq> EOF"
  by (auto simp: isdigit_def)

lemma isalnum_not_EOF: "isalnum c \<Longrightarrow> c \<noteq> EOF"
  using isalpha_not_EOF isdigit_not_EOF by (auto simp: isalnum_def)

text \<open>\<^verbatim>\<open>while (isspace(LastChar)) LastChar = getchar();\<close>\<close>

function skip_whitespace :: "state \<Rightarrow> state" where
  "skip_whitespace s = (if isspace (LastChar s) then skip_whitespace (read_LastChar s) else s)"
  by pat_completeness auto
termination
  by (relation "measure pending") (auto simp: pending_read_LastChar_less isspace_not_EOF)

declare skip_whitespace.simps [simp del]

text \<open>\<^verbatim>\<open>while (isalnum((LastChar = getchar()))) IdentifierStr += LastChar;\<close>\<close>

function read_identifier :: "state \<Rightarrow> state" where
  "read_identifier s =
     (let s' = read_LastChar s
      in if isalnum (LastChar s')
         then read_identifier (s'\<lparr>IdentifierStr := IdentifierStr s' @ [char_of (LastChar s')]\<rparr>)
         else s')"
  by pat_completeness auto
termination
proof (relation "measure (\<lambda>s. length (stdin s))")
  show "wf (measure (\<lambda>s. length (stdin s)))" by simp
next
  fix s s'
  assume "s' = read_LastChar s" and "isalnum (LastChar s')"
  then show "(s'\<lparr>IdentifierStr := IdentifierStr s' @ [char_of (LastChar s')]\<rparr>, s)
               \<in> measure (\<lambda>s. length (stdin s))"
    by (cases "stdin s") (auto simp: read_LastChar_def getchar_def dest: isalnum_not_EOF)
qed

declare read_identifier.simps [simp del]

text \<open>
  \<^verbatim>\<open>do { NumStr += LastChar; LastChar = getchar(); }
  while (isdigit(LastChar) || LastChar == '.');\<close>
\<close>

function read_number :: "string \<Rightarrow> state \<Rightarrow> string \<times> state" where
  "read_number NumStr s =
     (let NumStr' = NumStr @ [char_of (LastChar s)];
          s' = read_LastChar s
      in if isdigit (LastChar s') \<or> LastChar s' = ord CHR ''.''
         then read_number NumStr' s'
         else (NumStr', s'))"
  by pat_completeness auto
termination
proof (relation "measure (\<lambda>(NumStr, s). length (stdin s))")
  show "wf (measure (\<lambda>(NumStr, s). length (stdin s)))" by simp
next
  fix NumStr NumStr' :: string and s s' :: state
  assume "s' = read_LastChar s" and "isdigit (LastChar s') \<or> LastChar s' = ord CHR ''.''"
  then show "((NumStr', s'), (NumStr, s)) \<in> measure (\<lambda>(NumStr, s). length (stdin s))"
    by (cases "stdin s") (auto simp: read_LastChar_def getchar_def dest: isdigit_not_EOF)
qed

declare read_number.simps [simp del]

text \<open>
  \<^verbatim>\<open>do { LastChar = getchar(); }
  while (LastChar != EOF && LastChar != '\n' && LastChar != '\r');\<close>
\<close>

function skip_comment :: "state \<Rightarrow> state" where
  "skip_comment s =
     (let s' = read_LastChar s
      in if LastChar s' \<noteq> EOF \<and> LastChar s' \<noteq> ord (CHR 0x0A) \<and> LastChar s' \<noteq> ord (CHR 0x0D)
         then skip_comment s'
         else s')"
  by pat_completeness auto
termination
proof (relation "measure (\<lambda>s. length (stdin s))")
  show "wf (measure (\<lambda>s. length (stdin s)))" by simp
next
  fix s s'
  assume "s' = read_LastChar s"
    and "LastChar s' \<noteq> EOF \<and> LastChar s' \<noteq> ord (CHR 0x0A) \<and> LastChar s' \<noteq> ord (CHR 0x0D)"
  then show "(s', s) \<in> measure (\<lambda>s. length (stdin s))"
    by (cases "stdin s") (auto simp: read_LastChar_def getchar_def)
qed

declare skip_comment.simps [simp del]

lemma pending_skip_whitespace: "pending (skip_whitespace s) \<le> pending s"
proof (induction s rule: skip_whitespace.induct)
  case (1 s)
  show ?case
  proof (cases "isspace (LastChar s)")
    case True
    with 1 have "pending (skip_whitespace (read_LastChar s)) \<le> pending (read_LastChar s)"
      by simp
    also have "\<dots> \<le> pending s" by (rule pending_read_LastChar_le)
    finally show ?thesis using True by (simp add: skip_whitespace.simps [of s])
  next
    case False
    then show ?thesis by (simp add: skip_whitespace.simps [of s])
  qed
qed

lemma pending_IdentifierStr_update [simp]: "pending (s\<lparr>IdentifierStr := x\<rparr>) = pending s"
  by (simp add: pending_def)

lemma pending_NumVal_update [simp]: "pending (s\<lparr>NumVal := x\<rparr>) = pending s"
  by (simp add: pending_def)

lemma pending_read_identifier: "pending (read_identifier s) \<le> pending (read_LastChar s)"
proof (induction s rule: read_identifier.induct)
  case (1 s)
  let ?s' = "read_LastChar s"
  let ?t = "?s'\<lparr>IdentifierStr := IdentifierStr ?s' @ [char_of (LastChar ?s')]\<rparr>"
  show ?case
  proof (cases "isalnum (LastChar ?s')")
    case True
    with 1 have "pending (read_identifier ?t) \<le> pending (read_LastChar ?t)"
      by simp
    also have "\<dots> \<le> pending ?t" by (rule pending_read_LastChar_le)
    finally show ?thesis using True by (simp add: read_identifier.simps [of s] Let_def)
  next
    case False
    then show ?thesis by (simp add: read_identifier.simps [of s] Let_def)
  qed
qed

lemma pending_read_number: "pending (snd (read_number NumStr s)) \<le> pending (read_LastChar s)"
proof (induction NumStr s rule: read_number.induct)
  case (1 NumStr s)
  let ?s' = "read_LastChar s"
  let ?N = "NumStr @ [char_of (LastChar s)]"
  show ?case
  proof (cases "isdigit (LastChar ?s') \<or> LastChar ?s' = ord CHR ''.''")
    case True
    with 1 have "pending (snd (read_number ?N ?s')) \<le> pending (read_LastChar ?s')"
      by simp
    also have "\<dots> \<le> pending ?s'" by (rule pending_read_LastChar_le)
    finally show ?thesis using True by (simp add: read_number.simps [of NumStr s] Let_def)
  next
    case False
    then show ?thesis by (simp add: read_number.simps [of NumStr s] Let_def)
  qed
qed

lemma pending_skip_comment: "pending (skip_comment s) \<le> pending (read_LastChar s)"
proof (induction s rule: skip_comment.induct)
  case (1 s)
  let ?s' = "read_LastChar s"
  show ?case
  proof (cases "LastChar ?s' \<noteq> EOF \<and> LastChar ?s' \<noteq> ord (CHR 0x0A) \<and> LastChar ?s' \<noteq> ord (CHR 0x0D)")
    case True
    with 1 have "pending (skip_comment ?s') \<le> pending (read_LastChar ?s')"
      by simp
    also have "\<dots> \<le> pending ?s'" by (rule pending_read_LastChar_le)
    finally show ?thesis using True by (simp add: skip_comment.simps [of s] Let_def)
  next
    case False
    then show ?thesis by (auto simp add: skip_comment.simps [of s] Let_def)
  qed
qed

text \<open>
  The end of \<^verbatim>\<open>gettok\<close>, reached when the current character starts neither an
  identifier nor a number and any comment has been skipped: the end-of-file check and the
  character returned as its own value.
\<close>

definition gettok_char :: "state \<Rightarrow> int \<times> state" where
  "gettok_char s =
     (if LastChar s = EOF then (tok_eof, s)
      else let ThisChar = LastChar s;
               s' = read_LastChar s
           in (ThisChar, s'))"

text \<open>
  \<^verbatim>\<open>gettok\<close>: the next token from standard input. The state passed in holds the
  function's static \<^verbatim>\<open>LastChar\<close>.
\<close>

function gettok :: "state \<Rightarrow> int \<times> state" where
  "gettok s0 =
     (let s = skip_whitespace s0
      in if isalpha (LastChar s) then
           (let s1 = read_identifier (s\<lparr>IdentifierStr := [char_of (LastChar s)]\<rparr>)
            in if IdentifierStr s1 = ''def'' then (tok_def, s1)
               else if IdentifierStr s1 = ''extern'' then (tok_extern, s1)
               else (tok_identifier, s1))
         else if isdigit (LastChar s) \<or> LastChar s = ord CHR ''.'' then
           (let (NumStr, s1) = read_number [] s
            in (tok_number, s1\<lparr>NumVal := strtod NumStr\<rparr>))
         else if LastChar s = ord CHR ''#'' then
           (let s1 = skip_comment s
            in if LastChar s1 \<noteq> EOF then gettok s1 else gettok_char s1)
         else gettok_char s)"
  by pat_completeness auto
termination
proof (relation "measure pending")
  show "wf (measure pending)" by simp
next
  fix s0 s s1
  assume s: "s = skip_whitespace s0" and hash: "LastChar s = ord CHR ''#''"
    and s1: "s1 = skip_comment s"
  have "pending s1 \<le> pending (read_LastChar s)"
    unfolding s1 by (rule pending_skip_comment)
  also have "\<dots> < pending s"
    using hash by (intro pending_read_LastChar_less) simp
  also have "\<dots> \<le> pending s0"
    unfolding s by (rule pending_skip_whitespace)
  finally show "(s1, s0) \<in> measure pending" by simp
qed

declare gettok.simps [simp del]

text \<open>A call of \<^verbatim>\<open>gettok\<close> never gives characters back, and uses one up unless it returns \<^verbatim>\<open>tok_eof\<close>.\<close>

lemma pending_gettok_char:
  "pending (snd (gettok_char s)) \<le> pending s"
  "fst (gettok_char s) \<noteq> tok_eof \<Longrightarrow> pending (snd (gettok_char s)) < pending s"
  by (auto simp: gettok_char_def Let_def pending_read_LastChar_le pending_read_LastChar_less)

lemma pending_gettok:
  "pending (snd (gettok s)) \<le> pending s \<and>
   (fst (gettok s) \<noteq> tok_eof \<longrightarrow> pending (snd (gettok s)) < pending s)"
proof (induction s rule: gettok.induct)
  case (1 s0)
  let ?s = "skip_whitespace s0"
  have ws: "pending ?s \<le> pending s0" by (rule pending_skip_whitespace)
  consider (ident) "isalpha (LastChar ?s)"
    | (num) "\<not> isalpha (LastChar ?s)" "isdigit (LastChar ?s) \<or> LastChar ?s = ord CHR ''.''"
    | (comment) "\<not> isalpha (LastChar ?s)" "\<not> (isdigit (LastChar ?s) \<or> LastChar ?s = ord CHR ''.'')"
        "LastChar ?s = ord CHR ''#''"
    | (other) "\<not> isalpha (LastChar ?s)" "\<not> (isdigit (LastChar ?s) \<or> LastChar ?s = ord CHR ''.'')"
        "LastChar ?s \<noteq> ord CHR ''#''"
    by blast
  then show ?case
  proof cases
    case ident
    let ?t = "?s\<lparr>IdentifierStr := [char_of (LastChar ?s)]\<rparr>"
    have "pending (read_identifier ?t) \<le> pending (read_LastChar ?t)"
      by (rule pending_read_identifier)
    also have "\<dots> < pending ?t"
      using ident by (intro pending_read_LastChar_less) (auto dest: isalpha_not_EOF)
    finally have "pending (read_identifier ?t) < pending s0" using ws by simp
    then show ?thesis using ident by (simp add: gettok.simps [of s0] Let_def)
  next
    case num
    have "pending (snd (read_number [] ?s)) \<le> pending (read_LastChar ?s)"
      by (rule pending_read_number)
    also have "\<dots> < pending ?s"
      using num by (intro pending_read_LastChar_less) (auto dest: isdigit_not_EOF)
    finally have "pending (snd (read_number [] ?s)) < pending s0" using ws by simp
    then show ?thesis using num by (simp add: gettok.simps [of s0] Let_def case_prod_beta)
  next
    case comment
    let ?s1 = "skip_comment ?s"
    have "pending ?s1 \<le> pending (read_LastChar ?s)"
      by (rule pending_skip_comment)
    also have "\<dots> < pending ?s"
      using comment by (intro pending_read_LastChar_less) simp
    finally have lt: "pending ?s1 < pending s0" using ws by simp
    show ?thesis
    proof (cases "LastChar ?s1 \<noteq> EOF")
      case True
      with 1 comment have "pending (snd (gettok ?s1)) \<le> pending ?s1"
        by simp
      with lt True comment show ?thesis by (simp add: gettok.simps [of s0] Let_def)
    next
      case False
      with lt comment pending_gettok_char [of ?s1] show ?thesis
        by (simp add: gettok.simps [of s0] Let_def)
    qed
  next
    case other
    with ws pending_gettok_char [of ?s] show ?thesis
      by (auto simp add: gettok.simps [of s0] Let_def)
  qed
qed

section \<open>Abstract syntax tree\<close>

datatype ExprAST =
    NumberExprAST double
  | VariableExprAST string
  | BinaryExprAST char ExprAST ExprAST
  | CallExprAST string "ExprAST list"

datatype PrototypeAST = PrototypeAST string "string list"

datatype FunctionAST = FunctionAST PrototypeAST ExprAST

section \<open>Parser\<close>

text \<open>\<^verbatim>\<open>getNextToken\<close> reads a token into \<^verbatim>\<open>CurTok\<close> and returns it.\<close>

definition getNextToken :: "state \<Rightarrow> int \<times> state" where
  "getNextToken s = (let (t, s') = gettok s in (t, s'\<lparr>CurTok := t\<rparr>))"

text \<open>The statement \<^verbatim>\<open>getNextToken();\<close>, its value dropped.\<close>

definition advance :: "state \<Rightarrow> state" where
  "advance s = snd (getNextToken s)"

text \<open>
  \<^verbatim>\<open>BinopPrecedence[c]\<close> read as a value: \<^verbatim>\<open>std::map::operator[]\<close> inserts the
  key with value \<open>0\<close> when it is absent.
\<close>

definition BinopPrecedence_at :: "char \<Rightarrow> state \<Rightarrow> int \<times> state" where
  "BinopPrecedence_at c s =
     (case map_of (BinopPrecedence s) c of
        Some v \<Rightarrow> (v, s)
      | None \<Rightarrow> (0, s\<lparr>BinopPrecedence := AList.update c 0 (BinopPrecedence s)\<rparr>))"

definition GetTokPrecedence :: "state \<Rightarrow> int \<times> state" where
  "GetTokPrecedence s =
     (if \<not> isascii (CurTok s) then (- 1, s)
      else let (TokPrec, s') = BinopPrecedence_at (char_of (CurTok s)) s
           in if TokPrec \<le> 0 then (- 1, s') else (TokPrec, s'))"

text \<open>
  \<^verbatim>\<open>LogError\<close> and \<^verbatim>\<open>LogErrorP\<close>: a line on standard error, and the null pointer.
\<close>

definition LogError :: "string \<Rightarrow> state \<Rightarrow> 'a option \<times> state" where
  "LogError Str s = (None, s\<lparr>stderr := stderr s @ ''Error: '' @ Str @ [CHR 0x0A]\<rparr>)"

definition LogErrorP :: "string \<Rightarrow> state \<Rightarrow> PrototypeAST option \<times> state" where
  "LogErrorP Str s = (None, snd (LogError Str s :: ExprAST option \<times> state))"

definition ParseNumberExpr :: "state \<Rightarrow> ExprAST option \<times> state" where
  "ParseNumberExpr s =
     (let Result = NumberExprAST (NumVal s);
          s1 = advance s
      in (Some Result, s1))"

text \<open>
  The number of tokens the parser can still see is bounded by \<open>lookahead\<close>: the current
  token (unless it is \<^verbatim>\<open>tok_eof\<close>) and the characters left for the lexer.
\<close>

definition lookahead :: "state \<Rightarrow> nat" where
  "lookahead s = pending s + (if CurTok s = tok_eof then 0 else 1)"

lemma lookahead_advance_pending: "lookahead (advance s) \<le> pending s"
  using pending_gettok [of s]
  by (auto simp: lookahead_def advance_def getNextToken_def pending_def split: prod.splits)


lemma pending_le_lookahead: "pending s \<le> lookahead s"
  by (simp add: lookahead_def)

lemma lookahead_advance_le: "lookahead (advance s) \<le> lookahead s"
  using lookahead_advance_pending [of s] pending_le_lookahead [of s] by simp

lemma lookahead_advance_less: "CurTok s \<noteq> tok_eof \<Longrightarrow> lookahead (advance s) < lookahead s"
  using lookahead_advance_pending [of s] by (simp add: lookahead_def)

lemma GetTokPrecedence_state:
  "snd (GetTokPrecedence s) = s \<or>
   snd (GetTokPrecedence s) =
     s\<lparr>BinopPrecedence := AList.update (char_of (CurTok s)) 0 (BinopPrecedence s)\<rparr>"
  by (simp add: GetTokPrecedence_def BinopPrecedence_at_def Let_def split: option.splits)

lemma lookahead_GetTokPrecedence [simp]: "lookahead (snd (GetTokPrecedence s)) = lookahead s"
  using GetTokPrecedence_state [of s] by (auto simp: lookahead_def pending_def)

lemma CurTok_GetTokPrecedence [simp]: "CurTok (snd (GetTokPrecedence s)) = CurTok s"
  using GetTokPrecedence_state [of s] by auto

lemma lookahead_LogError [simp]: "lookahead (snd (LogError Str s)) = lookahead s"
  by (simp add: LogError_def lookahead_def pending_def)

lemma lookahead_ParseNumberExpr: "lookahead (snd (ParseNumberExpr s)) \<le> pending s"
  by (simp add: ParseNumberExpr_def lookahead_advance_pending)

text \<open>
  The expression grammar. A null \<^verbatim>\<open>unique_ptr\<close> is \<open>None\<close>. The
  \<^verbatim>\<open>while (true)\<close> loop of \<^verbatim>\<open>ParseIdentifierExpr\<close> is \<open>ParseArgs\<close>, which
  carries the vector \<^verbatim>\<open>Args\<close>; the loop of \<^verbatim>\<open>ParseBinOpRHS\<close> is its call of
  itself with the new \<^verbatim>\<open>LHS\<close>.
\<close>

function ParseExpression :: "state \<Rightarrow> ExprAST option \<times> state"
  and ParsePrimary :: "state \<Rightarrow> ExprAST option \<times> state"
  and ParseParenExpr :: "state \<Rightarrow> ExprAST option \<times> state"
  and ParseIdentifierExpr :: "state \<Rightarrow> ExprAST option \<times> state"
  and ParseArgs :: "ExprAST list \<Rightarrow> state \<Rightarrow> ExprAST list option \<times> state"
  and ParseBinOpRHS :: "int \<Rightarrow> ExprAST \<Rightarrow> state \<Rightarrow> ExprAST option \<times> state"
where
  "ParseExpression s =
     (case ParsePrimary s of
        (None, s1) \<Rightarrow> (None, s1)
      | (Some LHS, s1) \<Rightarrow> ParseBinOpRHS 0 LHS s1)"
| "ParsePrimary s =
     (if CurTok s = tok_identifier then ParseIdentifierExpr s
      else if CurTok s = tok_number then ParseNumberExpr s
      else if CurTok s = ord CHR ''('' then ParseParenExpr s
      else LogError ''unknown token when expecting an expression'' s)"
| "ParseParenExpr s =
     (let s1 = advance s
      in case ParseExpression s1 of
           (None, s2) \<Rightarrow> (None, s2)
         | (Some V, s2) \<Rightarrow>
             if CurTok s2 \<noteq> ord CHR '')'' then LogError (''expected ')'' @ [CHR 0x27]) s2
             else (Some V, advance s2))"
| "ParseIdentifierExpr s =
     (let IdName = IdentifierStr s;
          s1 = advance s
      in if CurTok s1 \<noteq> ord CHR ''('' then (Some (VariableExprAST IdName), s1)
         else let s2 = advance s1
              in case (if CurTok s2 \<noteq> ord CHR '')'' then ParseArgs [] s2 else (Some [], s2)) of
                   (None, s3) \<Rightarrow> (None, s3)
                 | (Some Args, s3) \<Rightarrow> (Some (CallExprAST IdName Args), advance s3))"
| "ParseArgs Args s =
     (case ParseExpression s of
        (None, s1) \<Rightarrow> (None, s1)
      | (Some Arg', s1) \<Rightarrow>
          let Args' = Args @ [Arg']
          in if CurTok s1 = ord CHR '')'' then (Some Args', s1)
             else if CurTok s1 \<noteq> ord CHR '','' then
               (None, snd (LogError ''Expected ')' or ',' in argument list'' s1
                             :: ExprAST option \<times> state))
             else ParseArgs Args' (advance s1))"
| "ParseBinOpRHS ExprPrec LHS s =
     (let (TokPrec, s1) = GetTokPrecedence s
      in if TokPrec < ExprPrec then (Some LHS, s1)
         else let BinOp = CurTok s1;
                  s2 = advance s1
              in case ParsePrimary s2 of
                   (None, s3) \<Rightarrow> (None, s3)
                 | (Some RHS, s3) \<Rightarrow>
                     let (NextPrec, s4) = GetTokPrecedence s3
                     in (case (if TokPrec < NextPrec then ParseBinOpRHS (TokPrec + 1) RHS s4
                               else (Some RHS, s4)) of
                           (None, s5) \<Rightarrow> (None, s5)
                         | (Some RHS', s5) \<Rightarrow>
                             ParseBinOpRHS ExprPrec (BinaryExprAST (char_of BinOp) LHS RHS') s5))"
  by pat_completeness auto

text \<open>
  Termination. The calls are nested (the state one rule returns is the state the next one
  starts from), so the bound on the returned state is first proved on the domain of the
  functions.
\<close>

abbreviation "Parse_dom \<equiv> ParseExpression_ParsePrimary_ParseParenExpr_ParseIdentifierExpr_ParseArgs_ParseBinOpRHS_dom"

lemma Parse_lookahead_partial:
  "Parse_dom (Inl (Inl s1)) \<Longrightarrow>
     lookahead (snd (ParseExpression s1)) \<le> lookahead s1 \<and>
     (fst (ParseExpression s1) \<noteq> None \<longrightarrow> lookahead (snd (ParseExpression s1)) < lookahead s1)"
  "Parse_dom (Inl (Inr (Inl s2))) \<Longrightarrow>
     lookahead (snd (ParsePrimary s2)) \<le> lookahead s2 \<and>
     (fst (ParsePrimary s2) \<noteq> None \<longrightarrow> lookahead (snd (ParsePrimary s2)) < lookahead s2)"
  "Parse_dom (Inl (Inr (Inr s3))) \<Longrightarrow> lookahead (snd (ParseParenExpr s3)) \<le> pending s3"
  "Parse_dom (Inr (Inl s4)) \<Longrightarrow> lookahead (snd (ParseIdentifierExpr s4)) \<le> pending s4"
  "Parse_dom (Inr (Inr (Inl (Args, s5)))) \<Longrightarrow> lookahead (snd (ParseArgs Args s5)) \<le> lookahead s5"
  "Parse_dom (Inr (Inr (Inr (ExprPrec, LHS, s6)))) \<Longrightarrow>
     lookahead (snd (ParseBinOpRHS ExprPrec LHS s6)) \<le> lookahead s6"
proof (induct rule: ParseExpression_ParsePrimary_ParseParenExpr_ParseIdentifierExpr_ParseArgs_ParseBinOpRHS.pinduct)
  case (1 s)
  obtain r t where pr: "ParsePrimary s = (r, t)" by (cases "ParsePrimary s")
  show ?case
  proof (cases r)
    case None
    with 1(2) pr show ?thesis by (simp add: ParseExpression.psimps [OF 1(1)])
  next
    case (Some e)
    with 1(2) pr have lt: "lookahead t < lookahead s" by simp
    from 1(3) [of r t e] pr Some have "lookahead (snd (ParseBinOpRHS 0 e t)) \<le> lookahead t"
      by simp
    with lt pr Some show ?thesis by (simp add: ParseExpression.psimps [OF 1(1)])
  qed
next
  case (2 s)
  note dom = 2(1)
  consider (ident) "CurTok s = tok_identifier"
    | (num) "CurTok s \<noteq> tok_identifier" "CurTok s = tok_number"
    | (paren) "CurTok s \<noteq> tok_identifier" "CurTok s \<noteq> tok_number" "CurTok s = ord CHR ''(''"
    | (other) "CurTok s \<noteq> tok_identifier" "CurTok s \<noteq> tok_number" "CurTok s \<noteq> ord CHR ''(''"
    by blast
  then show ?case
  proof cases
    case ident
    with 2(2) have "lookahead (snd (ParseIdentifierExpr s)) \<le> pending s" by simp
    with ident show ?thesis
      by (simp add: ParsePrimary.psimps [OF dom] lookahead_def)
  next
    case num
    with lookahead_ParseNumberExpr [of s] show ?thesis
      by (simp add: ParsePrimary.psimps [OF dom] lookahead_def)
  next
    case paren
    with 2(3) have "lookahead (snd (ParseParenExpr s)) \<le> pending s" by simp
    with paren show ?thesis
      by (simp add: ParsePrimary.psimps [OF dom] lookahead_def)
  next
    case other
    then show ?thesis
      by (simp add: ParsePrimary.psimps [OF dom] LogError_def lookahead_def pending_def)
  qed
next
  case (3 s)
  note dom = 3(1)
  let ?s1 = "advance s"
  obtain r t where pe: "ParseExpression ?s1 = (r, t)" by (cases "ParseExpression ?s1")
  from 3(2) [of ?s1] pe have "lookahead t \<le> lookahead ?s1" by simp
  also have "\<dots> \<le> pending s" by (rule lookahead_advance_pending)
  finally have le: "lookahead t \<le> pending s" .
  have "lookahead (advance t) \<le> lookahead t" by (rule lookahead_advance_le)
  with le pe show ?case
    by (cases r) (auto simp add: ParseParenExpr.psimps [OF dom] Let_def)
next
  case (4 s)
  note dom = 4(1)
  let ?s1 = "advance s"
  let ?s2 = "advance ?s1"
  have le1: "lookahead ?s1 \<le> pending s" by (rule lookahead_advance_pending)
  show ?case
  proof (cases "CurTok ?s1 \<noteq> ord CHR ''(''")
    case True
    with le1 show ?thesis by (simp add: ParseIdentifierExpr.psimps [OF dom] Let_def)
  next
    case False
    have le2: "lookahead ?s2 \<le> pending s"
      using le1 lookahead_advance_le [of ?s1] by simp
    show ?thesis
    proof (cases "CurTok ?s2 \<noteq> ord CHR '')''")
      case True
      obtain r t where pa: "ParseArgs [] ?s2 = (r, t)" by (cases "ParseArgs [] ?s2")
      from 4(2) [of "IdentifierStr s" ?s1 ?s2] False True pa
      have "lookahead t \<le> lookahead ?s2" by simp
      with le2 have "lookahead t \<le> pending s" by simp
      with lookahead_advance_le [of t] False True pa show ?thesis
        by (cases r) (auto simp add: ParseIdentifierExpr.psimps [OF dom] Let_def)
    next
      case c: False
      with lookahead_advance_le [of ?s2] le2 False show ?thesis
        by (simp add: ParseIdentifierExpr.psimps [OF dom] Let_def)
    qed
  qed
next
  case (5 Args s)
  note dom = 5(1)
  obtain r t where pe: "ParseExpression s = (r, t)" by (cases "ParseExpression s")
  from 5(2) pe have le: "lookahead t \<le> lookahead s" by simp
  show ?case
  proof (cases r)
    case None
    with le pe show ?thesis by (simp add: ParseArgs.psimps [OF dom])
  next
    case (Some e)
    show ?thesis
    proof (cases "CurTok t \<noteq> ord CHR '')'' \<and> CurTok t = ord CHR '',''")
      case True
      from 5(3) [of r t e "Args @ [e]"] pe Some True
      have "lookahead (snd (ParseArgs (Args @ [e]) (advance t))) \<le> lookahead (advance t)"
        by simp
      with lookahead_advance_le [of t] le pe Some True show ?thesis
        by (simp add: ParseArgs.psimps [OF dom] Let_def)
    next
      case False
      with le pe Some show ?thesis
        by (auto simp add: ParseArgs.psimps [OF dom] Let_def)
    qed
  qed
next
  case (6 ExprPrec LHS s)
  note dom = 6(1)
  obtain TokPrec s1 where g1: "GetTokPrecedence s = (TokPrec, s1)"
    by (cases "GetTokPrecedence s")
  have l1: "lookahead s1 = lookahead s"
    using lookahead_GetTokPrecedence [of s] g1 by simp
  show ?case
  proof (cases "TokPrec < ExprPrec")
    case True
    with g1 l1 show ?thesis by (simp add: ParseBinOpRHS.psimps [OF dom])
  next
    case False
    let ?s2 = "advance s1"
    obtain r s3 where pp: "ParsePrimary ?s2 = (r, s3)" by (cases "ParsePrimary ?s2")
    from 6(2) [of "(TokPrec, s1)" TokPrec s1 "CurTok s1" ?s2] g1 False pp
    have "lookahead s3 \<le> lookahead ?s2" by simp
    with lookahead_advance_le [of s1] l1 have l3: "lookahead s3 \<le> lookahead s" by simp
    show ?thesis
    proof (cases r)
      case None
      with g1 False pp l3 show ?thesis by (simp add: ParseBinOpRHS.psimps [OF dom] Let_def)
    next
      case (Some RHS)
      obtain NextPrec s4 where g2: "GetTokPrecedence s3 = (NextPrec, s4)"
        by (cases "GetTokPrecedence s3")
      have l4: "lookahead s4 = lookahead s3"
        using lookahead_GetTokPrecedence [of s3] g2 by simp
      let ?inner = "if TokPrec < NextPrec then ParseBinOpRHS (TokPrec + 1) RHS s4 else (Some RHS, s4)"
      obtain r' s5 where inner: "?inner = (r', s5)" by (cases ?inner)
      have l5: "lookahead s5 \<le> lookahead s4"
      proof (cases "TokPrec < NextPrec")
        case True
        from 6(3) [of "(TokPrec, s1)" TokPrec s1 "CurTok s1" ?s2 r s3 RHS "(NextPrec, s4)" NextPrec s4]
          g1 False pp Some g2 True inner
        show ?thesis by simp
      next
        case False
        with inner show ?thesis by simp
      qed
      show ?thesis
      proof (cases r')
        case None
        with g1 False pp Some g2 inner l3 l4 l5 show ?thesis
          by (simp add: ParseBinOpRHS.psimps [OF dom] Let_def)
      next
        case r': (Some RHS')
        from 6(4) [of "(TokPrec, s1)" TokPrec s1 "CurTok s1" ?s2 r s3 RHS "(NextPrec, s4)" NextPrec s4 r' s5 RHS']
          g1 False pp Some g2 inner r'
        have "lookahead (snd (ParseBinOpRHS ExprPrec (BinaryExprAST (char_of (CurTok s1)) LHS RHS') s5))
                \<le> lookahead s5" by simp
        with g1 False pp Some g2 inner r' l3 l4 l5 show ?thesis
          by (simp add: ParseBinOpRHS.psimps [OF dom] Let_def)
      qed
    qed
  qed
qed

termination ParseExpression
  apply (relation "measure (\<lambda>x. case x of
        Inl (Inl s) \<Rightarrow> 3 * lookahead s + 2
      | Inl (Inr (Inl s)) \<Rightarrow> 3 * lookahead s + 1
      | Inl (Inr (Inr s)) \<Rightarrow> 3 * pending s + 3
      | Inr (Inl s) \<Rightarrow> 3 * pending s + 3
      | Inr (Inr (Inl (Args, s))) \<Rightarrow> 3 * lookahead s + 3
      | Inr (Inr (Inr (ExprPrec, LHS, s))) \<Rightarrow> 3 * lookahead s + 2)")
  apply simp_all
  subgoal for s x y x2
    using Parse_lookahead_partial(2) [of s] by (cases "ParsePrimary s") auto
  subgoal for s by (simp add: lookahead_def)
  subgoal for s by (simp add: lookahead_def)
  subgoal for s using lookahead_advance_pending [of s] by simp
  subgoal for s
    using lookahead_advance_pending [of s] lookahead_advance_less [of "advance s"] by simp
  subgoal for Args s x y x2 xa
    using Parse_lookahead_partial(1) [of s] lookahead_advance_less [of y]
    by (cases "ParseExpression s") auto
  subgoal for ExprPrec s x xa y
    using lookahead_advance_le [of y] lookahead_GetTokPrecedence [of s]
    by (cases "GetTokPrecedence s") auto
  subgoal for ExprPrec s x xa y xb xc xd ya x2 xe xf yb
    using lookahead_advance_le [of y] lookahead_GetTokPrecedence [of s]
      lookahead_GetTokPrecedence [of ya] Parse_lookahead_partial(2) [of "advance y"]
    by (cases "GetTokPrecedence s"; cases "GetTokPrecedence ya"; cases "ParsePrimary (advance y)") auto
  subgoal for ExprPrec s x xa y xb xc xd ya x2 xe xf yb xg yc x2a
    using lookahead_advance_le [of y] lookahead_GetTokPrecedence [of s]
      lookahead_GetTokPrecedence [of ya] Parse_lookahead_partial(2) [of "advance y"]
      Parse_lookahead_partial(6) [of "xa + 1" x2 yb]
    by (cases "GetTokPrecedence s"; cases "GetTokPrecedence ya"; cases "ParsePrimary (advance y)";
        cases "ParseBinOpRHS (xa + 1) x2 yb"; cases "xa < xf") auto
  done

declare ParseExpression.simps [simp del] ParsePrimary.simps [simp del]
  ParseParenExpr.simps [simp del] ParseIdentifierExpr.simps [simp del]
  ParseArgs.simps [simp del] ParseBinOpRHS.simps [simp del]

text \<open>
  \<^verbatim>\<open>while (getNextToken() == tok_identifier) ArgNames.push_back(IdentifierStr);\<close>
\<close>

function ParsePrototype_ArgNames :: "string list \<Rightarrow> state \<Rightarrow> string list \<times> state" where
  "ParsePrototype_ArgNames ArgNames s =
     (let (t, s1) = getNextToken s
      in if t = tok_identifier then ParsePrototype_ArgNames (ArgNames @ [IdentifierStr s1]) s1
         else (ArgNames, s1))"
  by pat_completeness auto
termination
proof (relation "measure (\<lambda>(ArgNames, s). pending s)")
  show "wf (measure (\<lambda>(ArgNames, s). pending s))" by simp
next
  fix ArgNames :: "string list" and s s1 :: state and x t
  assume "x = getNextToken s" and "(t, s1) = x" and "t = tok_identifier"
  then have "fst (gettok s) \<noteq> tok_eof" and "pending s1 = pending (snd (gettok s))"
    by (auto simp: getNextToken_def pending_def split: prod.splits)
  with pending_gettok [of s]
  show "((ArgNames @ [IdentifierStr s1], s1), (ArgNames, s)) \<in> measure (\<lambda>(ArgNames, s). pending s)"
    by simp
qed

declare ParsePrototype_ArgNames.simps [simp del]

definition ParsePrototype :: "state \<Rightarrow> PrototypeAST option \<times> state" where
  "ParsePrototype s =
     (if CurTok s \<noteq> tok_identifier then LogErrorP ''Expected function name in prototype'' s
      else let FnName = IdentifierStr s;
               s1 = advance s
           in if CurTok s1 \<noteq> ord CHR ''('' then LogErrorP ''Expected '(' in prototype'' s1
              else let (ArgNames, s2) = ParsePrototype_ArgNames [] s1
                   in if CurTok s2 \<noteq> ord CHR '')'' then
                        LogErrorP ''Expected ')' in prototype'' s2
                      else (Some (PrototypeAST FnName ArgNames), advance s2))"

definition ParseDefinition :: "state \<Rightarrow> FunctionAST option \<times> state" where
  "ParseDefinition s =
     (let s1 = advance s
      in case ParsePrototype s1 of
           (None, s2) \<Rightarrow> (None, s2)
         | (Some Proto, s2) \<Rightarrow>
             (case ParseExpression s2 of
                (Some E, s3) \<Rightarrow> (Some (FunctionAST Proto E), s3)
              | (None, s3) \<Rightarrow> (None, s3)))"

definition ParseTopLevelExpr :: "state \<Rightarrow> FunctionAST option \<times> state" where
  "ParseTopLevelExpr s =
     (case ParseExpression s of
        (Some E, s1) \<Rightarrow>
          (let Proto = PrototypeAST ''__anon_expr'' []
           in (Some (FunctionAST Proto E), s1))
      | (None, s1) \<Rightarrow> (None, s1))"

definition ParseExtern :: "state \<Rightarrow> PrototypeAST option \<times> state" where
  "ParseExtern s = (let s1 = advance s in ParsePrototype s1)"

section \<open>Program start\<close>

text \<open>
  The state when \<^verbatim>\<open>main\<close> is entered with \<open>inp\<close> on standard input: the static
  \<^verbatim>\<open>LastChar\<close> of \<^verbatim>\<open>gettok\<close> is a space, the other variables are
  zero-initialised, nothing has been written.
\<close>

definition initial_state :: "char list \<Rightarrow> state" where
  "initial_state inp =
     \<lparr>stdin = inp, stderr = [], LastChar = ord CHR '' '', IdentifierStr = [],
      NumVal = Double 0, CurTok = 0, BinopPrecedence = []\<rparr>"

text \<open>The assignment \<^verbatim>\<open>BinopPrecedence[c] = v\<close>.\<close>

definition BinopPrecedence_assign :: "char \<Rightarrow> int \<Rightarrow> state \<Rightarrow> state" where
  "BinopPrecedence_assign c v s = s\<lparr>BinopPrecedence := AList.update c v (BinopPrecedence s)\<rparr>"

text \<open>
  \<^verbatim>\<open>main\<close> up to its call of \<^verbatim>\<open>MainLoop\<close>: the four operators are installed,
  the prompt is printed and the first token is read.
\<close>

definition main_start :: "state \<Rightarrow> state" where
  "main_start s0 =
     (let s1 = BinopPrecedence_assign CHR ''<'' 10 s0;
          s2 = BinopPrecedence_assign CHR ''+'' 20 s1;
          s3 = BinopPrecedence_assign CHR ''-'' 20 s2;
          s4 = BinopPrecedence_assign CHR ''*'' 40 s3;
          s5 = s4\<lparr>stderr := stderr s4 @ ''kaleidoscope >>> ''\<rparr>
      in advance s5)"

text \<open>The parser state in which the driver sees the first token of the input \<open>inp\<close>.\<close>

definition parser_on :: "char list \<Rightarrow> state" where
  "parser_on inp = main_start (initial_state inp)"

section \<open>Notions used in the statements\<close>

text \<open>
  A token that continues a binary expression, in the words of the specification: a single
  ASCII character with a positive entry in the precedence table.
\<close>

definition binary_operator_token :: "state \<Rightarrow> bool" where
  "binary_operator_token s \<longleftrightarrow>
     isascii (CurTok s) \<and>
     (case map_of (BinopPrecedence s) (char_of (CurTok s)) of
        None \<Rightarrow> False
      | Some p \<Rightarrow> 0 < p)"

text \<open>
  The sequence of tokens that repeated calls of \<^verbatim>\<open>gettok\<close> return, up to and including
  the first \<^verbatim>\<open>tok_eof\<close>; each token comes with the values of \<^verbatim>\<open>IdentifierStr\<close> and
  \<^verbatim>\<open>NumVal\<close> after the call, which are its payload when it is an identifier or a number.
\<close>

function tokens :: "state \<Rightarrow> (int \<times> string \<times> double) list" where
  "tokens s =
     (let (t, s') = gettok s
      in (t, IdentifierStr s', NumVal s') # (if t = tok_eof then [] else tokens s'))"
  by pat_completeness auto
termination
proof (relation "measure pending")
  show "wf (measure pending)" by simp
next
  fix s :: state and x t s'
  assume "x = gettok s" and "(t, s') = x" and "t \<noteq> tok_eof"
  with pending_gettok [of s] show "(s', s) \<in> measure pending"
    by (auto simp: prod_eq_iff)
qed

declare tokens.simps [simp del]

text \<open>The tokens of the input \<open>inp\<close>, read from the start of the program.\<close>

definition tokenize :: "char list \<Rightarrow> (int \<times> string \<times> double) list" where
  "tokenize inp = tokens (initial_state inp)"

text \<open>
  The input without its comments, in the words of the specification: a comment runs from
  \<open>#\<close> to the end of the line. The character that ends the line (new-line or carriage
  return, as in \<^verbatim>\<open>gettok\<close>) stays.
\<close>

function elide_comments :: "char list \<Rightarrow> char list" where
  "elide_comments [] = []"
| "elide_comments (c # cs) =
     (if c = CHR ''#'' then elide_comments (dropWhile (\<lambda>x. x \<noteq> CHR 0x0A \<and> x \<noteq> CHR 0x0D) cs)
      else c # elide_comments cs)"
  by pat_completeness auto
termination
  by (relation "measure length") (auto simp: less_Suc_eq_le length_dropWhile_le)

text \<open>
  For the proofs about the lexer: the state in which the lexer has the characters \<open>cs\<close>
  before it, the first of them in \<^verbatim>\<open>LastChar\<close> and the others unread.
\<close>

definition at_chars :: "char list \<Rightarrow> state \<Rightarrow> state" where
  "at_chars cs s =
     (case cs of [] \<Rightarrow> s\<lparr>stdin := [], LastChar := EOF\<rparr>
      | c # r \<Rightarrow> s\<lparr>stdin := r, LastChar := ord c\<rparr>)"

abbreviation (input) is_space :: "char \<Rightarrow> bool" where "is_space c \<equiv> isspace (ord c)"
abbreviation (input) is_alnum :: "char \<Rightarrow> bool" where "is_alnum c \<equiv> isalnum (ord c)"
abbreviation (input) is_numch :: "char \<Rightarrow> bool" where "is_numch c \<equiv> isdigit (ord c) \<or> c = CHR ''.''"
abbreviation (input) in_comment :: "char \<Rightarrow> bool" where "in_comment c \<equiv> c \<noteq> CHR 0x0A \<and> c \<noteq> CHR 0x0D"

section \<open>Properties of the expression parser on concrete inputs\<close>

text \<open>
  C1: for the input \<^verbatim>\<open>1+2*3\<close>, with the table \<open><\<close> = 10, \<open>+\<close> = 20, \<open>-\<close> = 20,
  \<open>*\<close> = 40 that \<^verbatim>\<open>main\<close> installs, \<^verbatim>\<open>ParseTopLevelExpr\<close> returns the anonymous
  function whose body is \<open>1 + (2 * 3)\<close>: the operator \<open>*\<close> binds tighter, and the body is
  not \<open>(1 + 2) * 3\<close>.
\<close>

theorem C1_mul_binds_tighter:
  "BinopPrecedence (parser_on ''1+2*3'') =
     [(CHR ''<'', 10), (CHR ''+'', 20), (CHR ''-'', 20), (CHR ''*'', 40)]
   \<and> fst (ParseTopLevelExpr (parser_on ''1+2*3'')) =
       Some (FunctionAST (PrototypeAST ''__anon_expr'' [])
         (BinaryExprAST CHR ''+'' (NumberExprAST (Double 1))
           (BinaryExprAST CHR ''*'' (NumberExprAST (Double 2)) (NumberExprAST (Double 3)))))
   \<and> fst (ParseTopLevelExpr (parser_on ''1+2*3'')) \<noteq>
       Some (FunctionAST (PrototypeAST ''__anon_expr'' [])
         (BinaryExprAST CHR ''*''
           (BinaryExprAST CHR ''+'' (NumberExprAST (Double 1)) (NumberExprAST (Double 2)))
           (NumberExprAST (Double 3))))"
proof -
  have table: "BinopPrecedence (parser_on ''1+2*3'') =
      [(CHR ''<'', 10), (CHR ''+'', 20), (CHR ''-'', 20), (CHR ''*'', 40)]"
    by code_simp
  have body: "fst (ParseExpression (parser_on ''1+2*3'')) =
      Some (BinaryExprAST CHR ''+'' (NumberExprAST (Double 1))
        (BinaryExprAST CHR ''*'' (NumberExprAST (Double 2)) (NumberExprAST (Double 3))))"
    by code_simp
  then have "fst (ParseTopLevelExpr (parser_on ''1+2*3'')) =
      Some (FunctionAST (PrototypeAST ''__anon_expr'' [])
        (BinaryExprAST CHR ''+'' (NumberExprAST (Double 1))
          (BinaryExprAST CHR ''*'' (NumberExprAST (Double 2)) (NumberExprAST (Double 3)))))"
    by (cases "ParseExpression (parser_on ''1+2*3'')") (simp add: ParseTopLevelExpr_def)
  with table show ?thesis by simp
qed

text \<open>
  C2: for the input \<^verbatim>\<open>1-2-3\<close> the expression parser is left-associative: the result
  is \<open>(1 - 2) - 3\<close> and not \<open>1 - (2 - 3)\<close>.
\<close>

theorem C2_minus_left_associative:
  "fst (ParseExpression (parser_on ''1-2-3'')) =
     Some (BinaryExprAST CHR ''-''
       (BinaryExprAST CHR ''-'' (NumberExprAST (Double 1)) (NumberExprAST (Double 2)))
       (NumberExprAST (Double 3)))
   \<and> fst (ParseExpression (parser_on ''1-2-3'')) \<noteq>
       Some (BinaryExprAST CHR ''-'' (NumberExprAST (Double 1))
         (BinaryExprAST CHR ''-'' (NumberExprAST (Double 2)) (NumberExprAST (Double 3))))"
proof -
  have "fst (ParseExpression (parser_on ''1-2-3'')) =
     Some (BinaryExprAST CHR ''-''
       (BinaryExprAST CHR ''-'' (NumberExprAST (Double 1)) (NumberExprAST (Double 2)))
       (NumberExprAST (Double 3)))"
    by code_simp
  then show ?thesis by simp
qed

text \<open>
  C3: \<^verbatim>\<open>ParseDefinition\<close> on the input \<^verbatim>\<open>def foo(x y) x + y\<close> succeeds; the
  prototype has the name \<open>foo\<close> and the parameters \<open>x\<close>, \<open>y\<close> in this order, and the body
  is \<open>x + y\<close>.
\<close>

theorem C3_definition_foo:
  "CurTok (parser_on ''def foo(x y) x + y'') = tok_def
   \<and> fst (ParseDefinition (parser_on ''def foo(x y) x + y'')) =
       Some (FunctionAST (PrototypeAST ''foo'' [''x'', ''y''])
         (BinaryExprAST CHR ''+'' (VariableExprAST ''x'') (VariableExprAST ''y'')))"
  by code_simp

text \<open>
  C4: \<^verbatim>\<open>ParseIdentifierExpr\<close> on the input \<^verbatim>\<open>foo(y, 4.0)\<close> returns the call of
  \<open>foo\<close> with exactly the two arguments \<open>y\<close> and \<open>4.0\<close>, in the order they were parsed.
\<close>

theorem C4_call_arguments_in_order:
  "CurTok (parser_on ''foo(y, 4.0)'') = tok_identifier
   \<and> fst (ParseIdentifierExpr (parser_on ''foo(y, 4.0)'')) =
       Some (CallExprAST ''foo'' [VariableExprAST ''y'', NumberExprAST (Double 4)])"
  by code_simp

text \<open>
  C10: a call with an empty argument list is accepted. On the input \<^verbatim>\<open>foo()\<close>,
  \<^verbatim>\<open>ParseIdentifierExpr\<close> returns the call of \<open>foo\<close> with no argument, writes nothing to
  standard error, and leaves the token after the closing parenthesis (here the end of the
  input) as the current token.
\<close>

theorem C10_call_without_arguments:
  "fst (ParseIdentifierExpr (parser_on ''foo()'')) = Some (CallExprAST ''foo'' [])
   \<and> stderr (snd (ParseIdentifierExpr (parser_on ''foo()''))) = stderr (parser_on ''foo()'')
   \<and> CurTok (snd (ParseIdentifierExpr (parser_on ''foo()''))) = tok_eof
   \<and> stdin (snd (ParseIdentifierExpr (parser_on ''foo()''))) = []
   \<and> LastChar (snd (ParseIdentifierExpr (parser_on ''foo()''))) = EOF"
  by code_simp

section \<open>Tokens that end a binary expression\<close>

lemma GetTokPrecedence_no_operator:
  assumes "\<not> binary_operator_token s"
  shows "fst (GetTokPrecedence s) = - 1"
    and "(snd (GetTokPrecedence s))\<lparr>BinopPrecedence := BinopPrecedence s\<rparr> = s"
  using assms
  by (auto simp: binary_operator_token_def GetTokPrecedence_def BinopPrecedence_at_def Let_def
      split: option.splits)

text \<open>
  C5: when the current token is not a single ASCII character with a positive entry in the
  precedence table (a keyword, an identifier, a number, the end of the input, or a
  character that is absent from the table or has an entry \<open>\<le> 0\<close>),
  \<^verbatim>\<open>GetTokPrecedence\<close> yields \<open>-1\<close>, and \<^verbatim>\<open>ParseBinOpRHS\<close> called with the
  minimal precedence \<open>0\<close> returns its left operand unchanged and consumes no token: the
  state it leaves differs from the one it started in at most in the precedence table (where
  the lookup through \<^verbatim>\<open>operator[]\<close> may have added the character with the value \<open>0\<close>).
\<close>

theorem C5_non_operator_ends_binop_rhs:
  assumes "\<not> binary_operator_token s"
  shows "fst (GetTokPrecedence s) = - 1
    \<and> fst (ParseBinOpRHS 0 LHS s) = Some LHS
    \<and> (snd (ParseBinOpRHS 0 LHS s))\<lparr>BinopPrecedence := BinopPrecedence s\<rparr> = s"
proof -
  obtain TokPrec s1 where g: "GetTokPrecedence s = (TokPrec, s1)"
    by (cases "GetTokPrecedence s")
  with GetTokPrecedence_no_operator [OF assms]
  have prec: "TokPrec = - 1" and same: "s1\<lparr>BinopPrecedence := BinopPrecedence s\<rparr> = s"
    by simp_all
  have "ParseBinOpRHS 0 LHS s = (Some LHS, s1)"
    using g prec by (simp add: ParseBinOpRHS.simps [of 0 LHS s])
  with g prec same show ?thesis by simp
qed

text \<open>
  The theorem at states in which the current token is: \<open>)\<close>, which the table does not
  hold; the end of the input; \<open>+\<close>, with a table that maps it to \<open>0\<close>; the keywords
  \<^verbatim>\<open>def\<close> and \<^verbatim>\<open>extern\<close>; an identifier; a number; \<open>,\<close>; and \<open>;\<close>.
\<close>

theorem C5_non_operator_witness:
  "\<not> binary_operator_token (parser_on '')'')
   \<and> fst (GetTokPrecedence (parser_on '')'')) = - 1
   \<and> fst (ParseBinOpRHS 0 (VariableExprAST ''x'') (parser_on '')'')) = Some (VariableExprAST ''x'')
   \<and> (snd (ParseBinOpRHS 0 (VariableExprAST ''x'') (parser_on '')'')))
        \<lparr>BinopPrecedence := BinopPrecedence (parser_on '')'')\<rparr> = parser_on '')''
   \<and> \<not> binary_operator_token (parser_on [])
   \<and> fst (ParseBinOpRHS 0 (VariableExprAST ''x'') (parser_on [])) = Some (VariableExprAST ''x'')
   \<and> \<not> binary_operator_token (BinopPrecedence_assign CHR ''+'' 0 (parser_on ''+''))
   \<and> fst (ParseBinOpRHS 0 (VariableExprAST ''x'') (BinopPrecedence_assign CHR ''+'' 0 (parser_on ''+''))) = Some (VariableExprAST ''x'')
   \<and> \<not> binary_operator_token (parser_on ''def'')
   \<and> fst (ParseBinOpRHS 0 (VariableExprAST ''x'') (parser_on ''def'')) = Some (VariableExprAST ''x'')
   \<and> \<not> binary_operator_token (parser_on ''extern'')
   \<and> fst (ParseBinOpRHS 0 (VariableExprAST ''x'') (parser_on ''extern'')) = Some (VariableExprAST ''x'')
   \<and> \<not> binary_operator_token (parser_on ''y'')
   \<and> fst (ParseBinOpRHS 0 (VariableExprAST ''x'') (parser_on ''y'')) = Some (VariableExprAST ''x'')
   \<and> \<not> binary_operator_token (parser_on ''4.0'')
   \<and> fst (ParseBinOpRHS 0 (VariableExprAST ''x'') (parser_on ''4.0'')) = Some (VariableExprAST ''x'')
   \<and> \<not> binary_operator_token (parser_on '','')
   \<and> fst (ParseBinOpRHS 0 (VariableExprAST ''x'') (parser_on '','')) = Some (VariableExprAST ''x'')
   \<and> \<not> binary_operator_token (parser_on '';'')
   \<and> fst (ParseBinOpRHS 0 (VariableExprAST ''x'') (parser_on '';'')) = Some (VariableExprAST ''x'')"
proof -
  have a: "\<not> binary_operator_token (parser_on '')'')" by code_simp
  have b: "\<not> binary_operator_token (parser_on [])" by code_simp
  have c: "\<not> binary_operator_token (BinopPrecedence_assign CHR ''+'' 0 (parser_on ''+''))" by code_simp
  have d: "\<not> binary_operator_token (parser_on ''def'')" by code_simp
  have e: "\<not> binary_operator_token (parser_on ''extern'')" by code_simp
  have f: "\<not> binary_operator_token (parser_on ''y'')" by code_simp
  have g: "\<not> binary_operator_token (parser_on ''4.0'')" by code_simp
  have h: "\<not> binary_operator_token (parser_on '','')" by code_simp
  have i: "\<not> binary_operator_token (parser_on '';'')" by code_simp
  show ?thesis
    using a b c d e f g h i
      C5_non_operator_ends_binop_rhs [OF a, of "VariableExprAST ''x''"]
      C5_non_operator_ends_binop_rhs [OF b, of "VariableExprAST ''x''"]
      C5_non_operator_ends_binop_rhs [OF c, of "VariableExprAST ''x''"]
      C5_non_operator_ends_binop_rhs [OF d, of "VariableExprAST ''x''"]
      C5_non_operator_ends_binop_rhs [OF e, of "VariableExprAST ''x''"]
      C5_non_operator_ends_binop_rhs [OF f, of "VariableExprAST ''x''"]
      C5_non_operator_ends_binop_rhs [OF g, of "VariableExprAST ''x''"]
      C5_non_operator_ends_binop_rhs [OF h, of "VariableExprAST ''x''"]
      C5_non_operator_ends_binop_rhs [OF i, of "VariableExprAST ''x''"]
    by blast
qed

section \<open>Parenthesised expressions\<close>

text \<open>
  C6: \<^verbatim>\<open>ParseParenExpr\<close> consumes the opening parenthesis and parses an expression. When
  that succeeds and the current token is then \<open>)\<close>, it consumes it and returns the inner
  expression itself, with no node for the grouping; when the current token is anything else,
  it fails, having written \<^verbatim>\<open>Error: expected ')'\<close> to standard error and consumed
  nothing more. Consequently \<^verbatim>\<open>(1+2)*3\<close> parses as \<open>(1 + 2) * 3\<close>.
\<close>

theorem C6_paren_expr:
  "(fst (ParseExpression (advance s)) = Some V \<and>
      CurTok (snd (ParseExpression (advance s))) = ord CHR '')'' \<longrightarrow>
      ParseParenExpr s = (Some V, advance (snd (ParseExpression (advance s)))))
   \<and> (fst (ParseExpression (advance s)) = Some V \<and>
      CurTok (snd (ParseExpression (advance s))) \<noteq> ord CHR '')'' \<longrightarrow>
      ParseParenExpr s =
        (None, (snd (ParseExpression (advance s)))
                 \<lparr>stderr := stderr (snd (ParseExpression (advance s)))
                            @ ''Error: expected ')'' @ [CHR 0x27, CHR 0x0A]\<rparr>))
   \<and> fst (ParseExpression (parser_on ''(1+2)*3'')) =
       Some (BinaryExprAST CHR ''*''
         (BinaryExprAST CHR ''+'' (NumberExprAST (Double 1)) (NumberExprAST (Double 2)))
         (NumberExprAST (Double 3)))"
proof -
  obtain r t where pe: "ParseExpression (advance s) = (r, t)"
    by (cases "ParseExpression (advance s)")
  have ok: "r = Some V \<and> CurTok t = ord CHR '')'' \<longrightarrow> ParseParenExpr s = (Some V, advance t)"
    using pe by (simp add: ParseParenExpr.simps [of s] Let_def)
  have err: "r = Some V \<and> CurTok t \<noteq> ord CHR '')'' \<longrightarrow>
      ParseParenExpr s = (None, t\<lparr>stderr := stderr t @ ''Error: expected ')'' @ [CHR 0x27, CHR 0x0A]\<rparr>)"
    using pe by (simp add: ParseParenExpr.simps [of s] Let_def LogError_def)
  have ex: "fst (ParseExpression (parser_on ''(1+2)*3'')) =
       Some (BinaryExprAST CHR ''*''
         (BinaryExprAST CHR ''+'' (NumberExprAST (Double 1)) (NumberExprAST (Double 2)))
         (NumberExprAST (Double 3)))"
    by code_simp
  from ok err ex pe show ?thesis by simp
qed

text \<open>
  The theorem at the inputs \<^verbatim>\<open>(1+2)*3\<close>, where the parenthesis is closed, and
  \<^verbatim>\<open>(1+2;\<close>, where it is not.
\<close>

theorem C6_paren_expr_witness:
  "fst (ParseExpression (advance (parser_on ''(1+2)*3''))) =
     Some (BinaryExprAST CHR ''+'' (NumberExprAST (Double 1)) (NumberExprAST (Double 2)))
   \<and> CurTok (snd (ParseExpression (advance (parser_on ''(1+2)*3'')))) = ord CHR '')''
   \<and> ParseParenExpr (parser_on ''(1+2)*3'') =
       (Some (BinaryExprAST CHR ''+'' (NumberExprAST (Double 1)) (NumberExprAST (Double 2))),
        advance (snd (ParseExpression (advance (parser_on ''(1+2)*3'')))))
   \<and> fst (ParseExpression (advance (parser_on ''(1+2;''))) =
       Some (BinaryExprAST CHR ''+'' (NumberExprAST (Double 1)) (NumberExprAST (Double 2)))
   \<and> CurTok (snd (ParseExpression (advance (parser_on ''(1+2;'')))) \<noteq> ord CHR '')''
   \<and> fst (ParseParenExpr (parser_on ''(1+2;'')) = None
   \<and> stderr (snd (ParseParenExpr (parser_on ''(1+2;''))) =
       ''kaleidoscope >>> Error: expected ')'' @ [CHR 0x27, CHR 0x0A]
   \<and> CurTok (snd (ParseParenExpr (parser_on ''(1+2;''))) = ord CHR '';''"
proof -
  let ?V = "BinaryExprAST CHR ''+'' (NumberExprAST (Double 1)) (NumberExprAST (Double 2))"
  have a1: "fst (ParseExpression (advance (parser_on ''(1+2)*3''))) = Some ?V" by code_simp
  have a2: "CurTok (snd (ParseExpression (advance (parser_on ''(1+2)*3'')))) = ord CHR '')''"
    by code_simp
  have b1: "fst (ParseExpression (advance (parser_on ''(1+2;''))) = Some ?V" by code_simp
  have b2: "CurTok (snd (ParseExpression (advance (parser_on ''(1+2;'')))) \<noteq> ord CHR '')''"
    by code_simp
  have b3: "stderr (snd (ParseExpression (advance (parser_on ''(1+2;'')))) = ''kaleidoscope >>> ''"
    by code_simp
  have b4: "CurTok (snd (ParseExpression (advance (parser_on ''(1+2;'')))) = ord CHR '';''"
    by code_simp
  from a1 a2 C6_paren_expr [of "parser_on ''(1+2)*3''" ?V]
  have A: "ParseParenExpr (parser_on ''(1+2)*3'') =
       (Some ?V, advance (snd (ParseExpression (advance (parser_on ''(1+2)*3'')))))"
    by blast
  from b1 b2 C6_paren_expr [of "parser_on ''(1+2;''" ?V]
  have B: "ParseParenExpr (parser_on ''(1+2;'') =
        (None, (snd (ParseExpression (advance (parser_on ''(1+2;''))))
                 \<lparr>stderr := stderr (snd (ParseExpression (advance (parser_on ''(1+2;''))))
                            @ ''Error: expected ')'' @ [CHR 0x27, CHR 0x0A]\<rparr>)"
    by blast
  show ?thesis
    using a1 a2 A b1 b2 b3 b4 by (simp add: B)
qed

section \<open>Failure propagation\<close>

text \<open>
  C7: a rule whose sub-rule fails returns the null pointer at once, in exactly the state
  the sub-rule left: no further token is read, nothing is given back and nothing more is
  written. This holds for the prototype and the body inside \<^verbatim>\<open>ParseDefinition\<close>, the
  prototype inside \<^verbatim>\<open>ParseExtern\<close>, the expression inside \<^verbatim>\<open>ParseTopLevelExpr\<close> and
  \<^verbatim>\<open>ParseParenExpr\<close>, the primary inside \<^verbatim>\<open>ParseExpression\<close>, every argument
  inside the loop of \<^verbatim>\<open>ParseIdentifierExpr\<close>, and the primary and the nested right-hand
  side inside \<^verbatim>\<open>ParseBinOpRHS\<close>.
\<close>

theorem C7_failure_propagates:
  "(fst (ParsePrototype (advance s)) = None \<longrightarrow>
      ParseDefinition s = (None, snd (ParsePrototype (advance s))))
   \<and> (fst (ParsePrototype (advance s)) \<noteq> None \<and>
        fst (ParseExpression (snd (ParsePrototype (advance s)))) = None \<longrightarrow>
      ParseDefinition s = (None, snd (ParseExpression (snd (ParsePrototype (advance s))))))
   \<and> (fst (ParsePrototype (advance s)) = None \<longrightarrow>
      ParseExtern s = (None, snd (ParsePrototype (advance s))))
   \<and> (fst (ParseExpression s) = None \<longrightarrow>
      ParseTopLevelExpr s = (None, snd (ParseExpression s)))
   \<and> (fst (ParseExpression (advance s)) = None \<longrightarrow>
      ParseParenExpr s = (None, snd (ParseExpression (advance s))))
   \<and> (fst (ParsePrimary s) = None \<longrightarrow>
      ParseExpression s = (None, snd (ParsePrimary s)))
   \<and> (fst (ParseExpression s) = None \<longrightarrow>
      ParseArgs Args s = (None, snd (ParseExpression s)))
   \<and> (CurTok (advance s) = ord CHR ''('' \<and> CurTok (advance (advance s)) \<noteq> ord CHR '')'' \<and>
        fst (ParseArgs [] (advance (advance s))) = None \<longrightarrow>
      ParseIdentifierExpr s = (None, snd (ParseArgs [] (advance (advance s)))))
   \<and> (ExprPrec \<le> fst (GetTokPrecedence s) \<and>
        fst (ParsePrimary (advance (snd (GetTokPrecedence s)))) = None \<longrightarrow>
      ParseBinOpRHS ExprPrec LHS s =
        (None, snd (ParsePrimary (advance (snd (GetTokPrecedence s))))))
   \<and> (ExprPrec \<le> fst (GetTokPrecedence s) \<and>
        ParsePrimary (advance (snd (GetTokPrecedence s))) = (Some RHS, s3) \<and>
        fst (GetTokPrecedence s) < fst (GetTokPrecedence s3) \<and>
        fst (ParseBinOpRHS (fst (GetTokPrecedence s) + 1) RHS (snd (GetTokPrecedence s3))) = None \<longrightarrow>
      ParseBinOpRHS ExprPrec LHS s =
        (None, snd (ParseBinOpRHS (fst (GetTokPrecedence s) + 1) RHS (snd (GetTokPrecedence s3)))))"
proof (intro conjI impI)
  assume "fst (ParsePrototype (advance s)) = None"
  then show "ParseDefinition s = (None, snd (ParsePrototype (advance s)))"
    by (auto simp add: ParseDefinition_def Let_def split: prod.splits option.splits)
next
  assume "fst (ParsePrototype (advance s)) \<noteq> None \<and>
        fst (ParseExpression (snd (ParsePrototype (advance s)))) = None"
  then show "ParseDefinition s = (None, snd (ParseExpression (snd (ParsePrototype (advance s)))))"
    by (auto simp add: ParseDefinition_def Let_def split: prod.splits option.splits)
next
  assume "fst (ParsePrototype (advance s)) = None"
  then show "ParseExtern s = (None, snd (ParsePrototype (advance s)))"
    by (simp add: ParseExtern_def Let_def prod_eq_iff)
next
  assume "fst (ParseExpression s) = None"
  then show "ParseTopLevelExpr s = (None, snd (ParseExpression s))"
    by (auto simp add: ParseTopLevelExpr_def split: prod.splits option.splits)
next
  assume "fst (ParseExpression (advance s)) = None"
  then show "ParseParenExpr s = (None, snd (ParseExpression (advance s)))"
    by (auto simp add: ParseParenExpr.simps [of s] Let_def split: prod.splits option.splits)
next
  assume "fst (ParsePrimary s) = None"
  then show "ParseExpression s = (None, snd (ParsePrimary s))"
    by (auto simp add: ParseExpression.simps [of s] split: prod.splits option.splits)
next
  assume "fst (ParseExpression s) = None"
  then show "ParseArgs Args s = (None, snd (ParseExpression s))"
    by (auto simp add: ParseArgs.simps [of Args s] split: prod.splits option.splits)
next
  assume "CurTok (advance s) = ord CHR ''('' \<and> CurTok (advance (advance s)) \<noteq> ord CHR '')'' \<and>
        fst (ParseArgs [] (advance (advance s))) = None"
  then show "ParseIdentifierExpr s = (None, snd (ParseArgs [] (advance (advance s))))"
    by (auto simp add: ParseIdentifierExpr.simps [of s] Let_def split: prod.splits option.splits)
next
  assume "ExprPrec \<le> fst (GetTokPrecedence s) \<and>
        fst (ParsePrimary (advance (snd (GetTokPrecedence s)))) = None"
  then show "ParseBinOpRHS ExprPrec LHS s =
        (None, snd (ParsePrimary (advance (snd (GetTokPrecedence s)))))"
    by (auto simp add: ParseBinOpRHS.simps [of ExprPrec LHS s] Let_def split: prod.splits option.splits)
next
  assume "ExprPrec \<le> fst (GetTokPrecedence s) \<and>
        ParsePrimary (advance (snd (GetTokPrecedence s))) = (Some RHS, s3) \<and>
        fst (GetTokPrecedence s) < fst (GetTokPrecedence s3) \<and>
        fst (ParseBinOpRHS (fst (GetTokPrecedence s) + 1) RHS (snd (GetTokPrecedence s3))) = None"
  then show "ParseBinOpRHS ExprPrec LHS s =
        (None, snd (ParseBinOpRHS (fst (GetTokPrecedence s) + 1) RHS (snd (GetTokPrecedence s3))))"
    by (auto simp add: ParseBinOpRHS.simps [of ExprPrec LHS s] Let_def split: prod.splits option.splits)
qed

text \<open>
  The theorem at inputs on which the sub-rules fail: \<^verbatim>\<open>def 1\<close> (no function name),
  \<^verbatim>\<open>def f() )\<close> (no body), \<^verbatim>\<open>)\<close> (no primary), \<^verbatim>\<open>()\<close> (no expression between the
  parentheses), \<^verbatim>\<open>f(,)\<close> (no argument), \<^verbatim>\<open>1+)\<close> (no right operand) and
  \<^verbatim>\<open>1+2*)\<close> (no right operand in the nested right-hand side).
\<close>

theorem C7_failure_propagates_witness:
  "fst (ParsePrototype (advance (parser_on ''def 1''))) = None
   \<and> ParseDefinition (parser_on ''def 1'') = (None, snd (ParsePrototype (advance (parser_on ''def 1''))))
   \<and> fst (ParsePrototype (advance (parser_on ''def f() )''))) \<noteq> None
   \<and> fst (ParseExpression (snd (ParsePrototype (advance (parser_on ''def f() )''))))) = None
   \<and> ParseDefinition (parser_on ''def f() )'') = (None, snd (ParseExpression (snd (ParsePrototype (advance (parser_on ''def f() )''))))))
   \<and> ParseExtern (parser_on ''def 1'') = (None, snd (ParsePrototype (advance (parser_on ''def 1''))))
   \<and> fst (ParseExpression (parser_on '')'')) = None
   \<and> ParseTopLevelExpr (parser_on '')'') = (None, snd (ParseExpression (parser_on '')'')))
   \<and> fst (ParseExpression (advance (parser_on ''()''))) = None
   \<and> ParseParenExpr (parser_on ''()'') = (None, snd (ParseExpression (advance (parser_on ''()''))))
   \<and> fst (ParsePrimary (parser_on '')'')) = None
   \<and> ParseExpression (parser_on '')'') = (None, snd (ParsePrimary (parser_on '')'')))
   \<and> ParseArgs [] (parser_on '')'') = (None, snd (ParseExpression (parser_on '')'')))
   \<and> CurTok (advance (parser_on ''f(,)'')) = ord CHR ''(''
   \<and> CurTok (advance (advance (parser_on ''f(,)''))) \<noteq> ord CHR '')''
   \<and> fst (ParseArgs [] (advance (advance (parser_on ''f(,)'')))) = None
   \<and> ParseIdentifierExpr (parser_on ''f(,)'') = (None, snd (ParseArgs [] (advance (advance (parser_on ''f(,)'')))))
   \<and> 0 \<le> fst (GetTokPrecedence (advance (parser_on ''1+)'')))
   \<and> fst (ParsePrimary (advance (snd (GetTokPrecedence (advance (parser_on ''1+)'')))))) = None
   \<and> ParseBinOpRHS 0 (NumberExprAST (Double 1)) (advance (parser_on ''1+)'')) =
       (None, snd (ParsePrimary (advance (snd (GetTokPrecedence (advance (parser_on ''1+)'')))))))
   \<and> 0 \<le> fst (GetTokPrecedence (advance (parser_on ''1+2*)'')))
   \<and> fst (ParsePrimary (advance (snd (GetTokPrecedence (advance (parser_on ''1+2*)'')))))) = Some (NumberExprAST (Double 2))
   \<and> fst (GetTokPrecedence (advance (parser_on ''1+2*)'')))
       < fst (GetTokPrecedence (snd (ParsePrimary (advance (snd (GetTokPrecedence (advance (parser_on ''1+2*)''))))))))
   \<and> fst (ParseBinOpRHS (fst (GetTokPrecedence (advance (parser_on ''1+2*)''))) + 1) (NumberExprAST (Double 2)) (snd (GetTokPrecedence (snd (ParsePrimary (advance (snd (GetTokPrecedence (advance (parser_on ''1+2*)'')))))))))) = None
   \<and> ParseBinOpRHS 0 (NumberExprAST (Double 1)) (advance (parser_on ''1+2*)'')) =
       (None, snd (ParseBinOpRHS (fst (GetTokPrecedence (advance (parser_on ''1+2*)''))) + 1) (NumberExprAST (Double 2)) (snd (GetTokPrecedence (snd (ParsePrimary (advance (snd (GetTokPrecedence (advance (parser_on ''1+2*)'')))))))))))"
proof -
  let ?d = "parser_on ''def 1''" and ?e = "parser_on ''def f() )''" and ?c = "parser_on '')''"
  let ?p = "parser_on ''()''" and ?f = "parser_on ''f(,)''"
  let ?b = "advance (parser_on ''1+)'')" and ?m = "advance (parser_on ''1+2*)'')"
  let ?m3 = "snd (ParsePrimary (advance (snd (GetTokPrecedence ?m))))"
  have d1: "fst (ParsePrototype (advance ?d)) = None" by code_simp
  have e1: "fst (ParsePrototype (advance ?e)) \<noteq> None" by code_simp
  have e2: "fst (ParseExpression (snd (ParsePrototype (advance ?e)))) = None" by code_simp
  have c1: "fst (ParseExpression ?c) = None" by code_simp
  have c2: "fst (ParsePrimary ?c) = None" by code_simp
  have p1: "fst (ParseExpression (advance ?p)) = None" by code_simp
  have f1: "CurTok (advance ?f) = ord CHR ''(''" by code_simp
  have f2: "CurTok (advance (advance ?f)) \<noteq> ord CHR '')''" by code_simp
  have f3: "fst (ParseArgs [] (advance (advance ?f))) = None" by code_simp
  have b1: "0 \<le> fst (GetTokPrecedence ?b)" by code_simp
  have b2: "fst (ParsePrimary (advance (snd (GetTokPrecedence ?b)))) = None" by code_simp
  have m1: "0 \<le> fst (GetTokPrecedence ?m)" by code_simp
  have m2: "fst (ParsePrimary (advance (snd (GetTokPrecedence ?m)))) = Some (NumberExprAST (Double 2))"
    by code_simp
  then have m2': "ParsePrimary (advance (snd (GetTokPrecedence ?m))) = (Some (NumberExprAST (Double 2)), ?m3)"
    by (simp add: prod_eq_iff)
  have m3: "fst (GetTokPrecedence ?m) < fst (GetTokPrecedence ?m3)" by code_simp
  have m4: "fst (ParseBinOpRHS (fst (GetTokPrecedence ?m) + 1) (NumberExprAST (Double 2))
               (snd (GetTokPrecedence ?m3))) = None"
    by code_simp
  note D = C7_failure_propagates [where s = ?d]
  note E = C7_failure_propagates [where s = ?e]
  note C = C7_failure_propagates [where s = ?c and Args = "[]"]
  note P = C7_failure_propagates [where s = ?p]
  note F = C7_failure_propagates [where s = ?f]
  note B = C7_failure_propagates [where s = ?b and ExprPrec = 0 and LHS = "NumberExprAST (Double 1)"]
  note M = C7_failure_propagates [where s = ?m and ExprPrec = 0 and LHS = "NumberExprAST (Double 1)"
      and RHS = "NumberExprAST (Double 2)" and ?s3.0 = ?m3]
  have "ParseDefinition ?d = (None, snd (ParsePrototype (advance ?d)))"
    and "ParseExtern ?d = (None, snd (ParsePrototype (advance ?d)))"
    using D d1 by blast+
  moreover have "ParseDefinition ?e = (None, snd (ParseExpression (snd (ParsePrototype (advance ?e)))))"
    using E e1 e2 by blast
  moreover have "ParseTopLevelExpr ?c = (None, snd (ParseExpression ?c))"
    and "ParseExpression ?c = (None, snd (ParsePrimary ?c))"
    and "ParseArgs [] ?c = (None, snd (ParseExpression ?c))"
    using C c1 c2 by blast+
  moreover have "ParseParenExpr ?p = (None, snd (ParseExpression (advance ?p)))"
    using P p1 by blast
  moreover have "ParseIdentifierExpr ?f = (None, snd (ParseArgs [] (advance (advance ?f))))"
    using F f1 f2 f3 by blast
  moreover have "ParseBinOpRHS 0 (NumberExprAST (Double 1)) ?b =
       (None, snd (ParsePrimary (advance (snd (GetTokPrecedence ?b)))))"
    using B b1 b2 by blast
  moreover have "ParseBinOpRHS 0 (NumberExprAST (Double 1)) ?m =
       (None, snd (ParseBinOpRHS (fst (GetTokPrecedence ?m) + 1) (NumberExprAST (Double 2))
             (snd (GetTokPrecedence ?m3))))"
    using M m1 m2' m3 m4 by blast
  ultimately show ?thesis
    using d1 e1 e2 c1 c2 p1 f1 f2 f3 b1 b2 m1 m2 m3 m4 by blast
qed

section \<open>Whitespace and single-character tokens\<close>

lemma skip_whitespace_space:
  "isspace (LastChar s) \<Longrightarrow> skip_whitespace s = skip_whitespace (read_LastChar s)"
  by (simp add: skip_whitespace.simps [of s])

lemma skip_whitespace_other: "\<not> isspace (LastChar s) \<Longrightarrow> skip_whitespace s = s"
  by (simp add: skip_whitespace.simps [of s])

lemma gettok_cong: "skip_whitespace s = skip_whitespace t \<Longrightarrow> gettok s = gettok t"
  by (simp add: gettok.simps [of s] gettok.simps [of t])

text \<open>
  C9, as the specification states it, fails: the lexer does not skip space, tab, new-line
  and carriage return only. It skips what \<^verbatim>\<open>isspace\<close> accepts, and a vertical tab is
  among that. Take the input \<open>a\<close>, vertical tab, \<open>+\<close>. After the first call of
  \<^verbatim>\<open>gettok\<close>, which returns the identifier \<open>a\<close>, the current character is the vertical
  tab: it is none of the four characters, no letter, no digit, no \<open>.\<close>, no \<open>#\<close> and not the
  end of the input. The next call does not return the vertical tab as a token and does not
  stop one character further: it returns \<open>+\<close>. The tokens of this input are the identifier,
  \<open>+\<close> and the end of the input.
\<close>

theorem C9_vertical_tab_is_skipped:
  "LastChar (snd (gettok (initial_state [CHR ''a'', CHR 0x0B, CHR ''+'']))) = ord (CHR 0x0B)
   \<and> LastChar (snd (gettok (initial_state [CHR ''a'', CHR 0x0B, CHR ''+''])))
         \<notin> {ord CHR '' '', ord (CHR 0x09), ord (CHR 0x0A), ord (CHR 0x0D)}
   \<and> \<not> isalpha (LastChar (snd (gettok (initial_state [CHR ''a'', CHR 0x0B, CHR ''+'']))))
   \<and> \<not> isdigit (LastChar (snd (gettok (initial_state [CHR ''a'', CHR 0x0B, CHR ''+'']))))
   \<and> LastChar (snd (gettok (initial_state [CHR ''a'', CHR 0x0B, CHR ''+'']))) \<noteq> ord CHR ''.''
   \<and> LastChar (snd (gettok (initial_state [CHR ''a'', CHR 0x0B, CHR ''+'']))) \<noteq> ord CHR ''#''
   \<and> LastChar (snd (gettok (initial_state [CHR ''a'', CHR 0x0B, CHR ''+'']))) \<noteq> EOF
   \<and> fst (gettok (snd (gettok (initial_state [CHR ''a'', CHR 0x0B, CHR ''+''])))) = ord CHR ''+''
   \<and> gettok (snd (gettok (initial_state [CHR ''a'', CHR 0x0B, CHR ''+''])))
       \<noteq> (LastChar (snd (gettok (initial_state [CHR ''a'', CHR 0x0B, CHR ''+'']))),
           read_LastChar (snd (gettok (initial_state [CHR ''a'', CHR 0x0B, CHR ''+'']))))
   \<and> map fst (tokenize [CHR ''a'', CHR 0x0B, CHR ''+'']) = [tok_identifier, ord CHR ''+'', tok_eof]"
  by code_simp

text \<open>
  C9, amended: the lexer skips exactly the characters for which \<^verbatim>\<open>isspace\<close> holds
  (space, horizontal tab, new-line, vertical tab, form feed and carriage return), one at a
  time, and stops skipping at any other character; and when the current character is none
  of these, no letter, no digit, no \<open>.\<close>, no \<open>#\<close> and not the end of the input,
  \<^verbatim>\<open>gettok\<close> returns the value of that character as the token and reads one character
  further.
\<close>

theorem C9_whitespace_and_single_characters:
  "(isspace c \<longleftrightarrow>
      c \<in> {ord CHR '' '', ord (CHR 0x09), ord (CHR 0x0A), ord (CHR 0x0B), ord (CHR 0x0C), ord (CHR 0x0D)})
   \<and> (isspace (LastChar s) \<longrightarrow>
        skip_whitespace s = skip_whitespace (read_LastChar s) \<and> gettok s = gettok (read_LastChar s))
   \<and> (\<not> isspace (LastChar s) \<longrightarrow> skip_whitespace s = s)
   \<and> (\<not> isspace (LastChar s) \<and> \<not> isalpha (LastChar s) \<and> \<not> isdigit (LastChar s) \<and>
        LastChar s \<noteq> ord CHR ''.'' \<and> LastChar s \<noteq> ord CHR ''#'' \<and> LastChar s \<noteq> EOF \<longrightarrow>
      gettok s = (LastChar s, read_LastChar s))"
proof (intro conjI impI)
  show "isspace c \<longleftrightarrow>
      c \<in> {ord CHR '' '', ord (CHR 0x09), ord (CHR 0x0A), ord (CHR 0x0B), ord (CHR 0x0C), ord (CHR 0x0D)}"
    by (auto simp: isspace_def)
next
  assume "isspace (LastChar s)"
  then show "skip_whitespace s = skip_whitespace (read_LastChar s)"
    by (rule skip_whitespace_space)
next
  assume "isspace (LastChar s)"
  then show "gettok s = gettok (read_LastChar s)"
    by (intro gettok_cong skip_whitespace_space)
next
  assume "\<not> isspace (LastChar s)"
  then show "skip_whitespace s = s"
    by (rule skip_whitespace_other)
next
  assume "\<not> isspace (LastChar s) \<and> \<not> isalpha (LastChar s) \<and> \<not> isdigit (LastChar s) \<and>
        LastChar s \<noteq> ord CHR ''.'' \<and> LastChar s \<noteq> ord CHR ''#'' \<and> LastChar s \<noteq> EOF"
  then show "gettok s = (LastChar s, read_LastChar s)"
    by (simp add: gettok.simps [of s] skip_whitespace_other gettok_char_def)
qed

text \<open>
  The theorem on the same input, after the identifier \<open>a\<close> has been read: the vertical tab
  is skipped, the skipping stops at \<open>+\<close>, and \<open>+\<close> is returned as a token of its own, with
  the end of the input as the new current character.
\<close>

theorem C9_whitespace_and_single_characters_witness:
  "isspace (LastChar (snd (gettok (initial_state [CHR ''a'', CHR 0x0B, CHR ''+'']))))
   \<and> gettok (snd (gettok (initial_state [CHR ''a'', CHR 0x0B, CHR ''+''])))
       = gettok (read_LastChar (snd (gettok (initial_state [CHR ''a'', CHR 0x0B, CHR ''+'']))))
   \<and> LastChar (read_LastChar (snd (gettok (initial_state [CHR ''a'', CHR 0x0B, CHR ''+''])))) = ord CHR ''+''
   \<and> \<not> isspace (ord CHR ''+'') \<and> \<not> isalpha (ord CHR ''+'') \<and> \<not> isdigit (ord CHR ''+'')
   \<and> skip_whitespace (read_LastChar (snd (gettok (initial_state [CHR ''a'', CHR 0x0B, CHR ''+'']))))
       = read_LastChar (snd (gettok (initial_state [CHR ''a'', CHR 0x0B, CHR ''+''])))
   \<and> gettok (read_LastChar (snd (gettok (initial_state [CHR ''a'', CHR 0x0B, CHR ''+'']))))
       = (ord CHR ''+'',
          read_LastChar (read_LastChar (snd (gettok (initial_state [CHR ''a'', CHR 0x0B, CHR ''+''])))))
   \<and> LastChar (read_LastChar (read_LastChar (snd (gettok (initial_state [CHR ''a'', CHR 0x0B, CHR ''+'']))))) = EOF"
proof -
  let ?s = "snd (gettok (initial_state [CHR ''a'', CHR 0x0B, CHR ''+'']))"
  let ?t = "read_LastChar ?s"
  have a: "isspace (LastChar ?s)" by code_simp
  have b: "\<not> isspace (LastChar ?t) \<and> \<not> isalpha (LastChar ?t) \<and> \<not> isdigit (LastChar ?t) \<and>
        LastChar ?t \<noteq> ord CHR ''.'' \<and> LastChar ?t \<noteq> ord CHR ''#'' \<and> LastChar ?t \<noteq> EOF"
    by code_simp
  have c: "LastChar ?t = ord CHR ''+''" by code_simp
  have d: "LastChar (read_LastChar ?t) = EOF" by code_simp
  have "gettok ?s = gettok ?t"
    using a C9_whitespace_and_single_characters [of _ ?s] by blast
  moreover have "gettok ?t = (LastChar ?t, read_LastChar ?t)"
    using b C9_whitespace_and_single_characters [of _ ?t] by blast
  moreover have "skip_whitespace ?t = ?t"
    using b C9_whitespace_and_single_characters [of _ ?t] by blast
  ultimately show ?thesis using a b c d by simp
qed

section \<open>Comments\<close>

lemma ord_not_EOF [simp]: "ord c \<noteq> EOF"
proof -
  have "0 \<le> ord c" by (simp add: of_char_def)
  then show ?thesis by simp
qed

lemma ord_eq_simps [simp]:
  "ord d = 10 \<longleftrightarrow> d = CHR 0x0A"
  "ord d = 13 \<longleftrightarrow> d = CHR 0x0D"
  "ord d = 35 \<longleftrightarrow> d = CHR ''#''"
  "ord d = 46 \<longleftrightarrow> d = CHR ''.''"
  using of_char_eq_iff [of d "CHR 0x0A", where ?'a = int]
    of_char_eq_iff [of d "CHR 0x0D", where ?'a = int]
    of_char_eq_iff [of d "CHR ''#''", where ?'a = int]
    of_char_eq_iff [of d "CHR ''.''", where ?'a = int]
  by simp_all

lemma read_LastChar_at_chars [simp]:
  "read_LastChar (at_chars (c # cs) s) = at_chars cs s"
  "read_LastChar (at_chars [] s) = at_chars [] s"
  by (simp_all add: at_chars_def read_LastChar_def getchar_def split: list.splits)

lemma at_chars_fields [simp]:
  "IdentifierStr (at_chars cs s) = IdentifierStr s"
  "NumVal (at_chars cs s) = NumVal s"
  "LastChar (at_chars (c # cs) s) = ord c"
  "LastChar (at_chars [] s) = EOF"
  "(at_chars cs s)\<lparr>IdentifierStr := x\<rparr> = at_chars cs (s\<lparr>IdentifierStr := x\<rparr>)"
  "(at_chars cs s)\<lparr>NumVal := y\<rparr> = at_chars cs (s\<lparr>NumVal := y\<rparr>)"
  by (simp_all add: at_chars_def split: list.splits)



lemma skip_whitespace_at_chars:
  "skip_whitespace (at_chars cs s) = at_chars (dropWhile is_space cs) s"
proof (induction cs)
  case Nil
  then show ?case by (simp add: skip_whitespace_other isspace_def)
next
  case (Cons c cs)
  then show ?case
    by (cases "is_space c") (simp_all add: skip_whitespace_space skip_whitespace_other)
qed

lemma read_identifier_at_chars:
  "read_identifier (at_chars (c # cs) s) =
     at_chars (dropWhile is_alnum cs) (s\<lparr>IdentifierStr := IdentifierStr s @ takeWhile is_alnum cs\<rparr>)"
proof (induction cs arbitrary: c s)
  case Nil
  have "\<not> isalnum EOF" using isalnum_not_EOF by blast
  then show ?case by (simp add: read_identifier.simps [of "at_chars [c] s"] Let_def)
next
  case (Cons d cs)
  show ?case
    by (cases "is_alnum d")
      (simp_all add: read_identifier.simps [of "at_chars (c # d # cs) s"] Let_def Cons)
qed

lemma read_number_at_chars:
  "read_number NumStr (at_chars (c # cs) s) =
     (NumStr @ c # takeWhile is_numch cs, at_chars (dropWhile is_numch cs) s)"
proof (induction cs arbitrary: c NumStr)
  case Nil
  have "\<not> isdigit EOF" using isdigit_not_EOF by blast
  then show ?case by (simp add: read_number.simps [of NumStr "at_chars [c] s"] Let_def)
next
  case (Cons d cs)
  show ?case
    by (cases "is_numch d")
      (simp_all add: read_number.simps [of NumStr "at_chars (c # d # cs) s"] Let_def Cons)
qed

lemma skip_comment_at_chars:
  "skip_comment (at_chars (c # cs) s) = at_chars (dropWhile in_comment cs) s"
proof (induction cs arbitrary: c)
  case Nil
  then show ?case by (simp add: skip_comment.simps [of "at_chars [c] s"] Let_def)
next
  case (Cons d cs)
  show ?case
    by (cases "in_comment d")
      (auto simp add: skip_comment.simps [of "at_chars (c # d # cs) s"] Let_def Cons)
qed


lemma after_comment:
  "(if LastChar (at_chars ys s) \<noteq> EOF then gettok (at_chars ys s)
    else gettok_char (at_chars ys s)) =
   (case ys of [] \<Rightarrow> (tok_eof, at_chars [] s) | e # zs \<Rightarrow> gettok (at_chars (e # zs) s))"
  by (cases ys) (simp_all add: gettok_char_def)

lemma gettok_at_chars:
  "gettok (at_chars cs s) =
     (case dropWhile is_space cs of
        [] \<Rightarrow> (tok_eof, at_chars [] s)
      | c # r \<Rightarrow>
          if isalpha (ord c) then
            (if c # takeWhile is_alnum r = ''def'' then tok_def
             else if c # takeWhile is_alnum r = ''extern'' then tok_extern
             else tok_identifier,
             at_chars (dropWhile is_alnum r) (s\<lparr>IdentifierStr := c # takeWhile is_alnum r\<rparr>))
          else if is_numch c then
            (tok_number,
             at_chars (dropWhile is_numch r) (s\<lparr>NumVal := strtod (c # takeWhile is_numch r)\<rparr>))
          else if c = CHR ''#'' then
            (case dropWhile in_comment r of
               [] \<Rightarrow> (tok_eof, at_chars [] s)
             | e # ys \<Rightarrow> gettok (at_chars (e # ys) s))
          else (ord c, at_chars r s))"
proof -
  let ?r = "dropWhile is_space cs"
  have drop: "gettok (at_chars cs s) = gettok (at_chars ?r s)"
    by (rule gettok_cong) (simp add: skip_whitespace_at_chars)
  show ?thesis
  proof (cases ?r)
    case Nil
    have "\<not> isalpha EOF" "\<not> isdigit EOF"
      using isalpha_not_EOF isdigit_not_EOF by blast+
    then have "gettok (at_chars [] s) = (tok_eof, at_chars [] s)"
      by (simp add: gettok.simps [of "at_chars [] s"] skip_whitespace_at_chars gettok_char_def)
    then show ?thesis by (simp add: drop Nil)
  next
    case (Cons c r)
    have "\<not> is_space (hd ?r)"
      by (rule hd_dropWhile) (simp add: Cons)
    then have nsp: "\<not> is_space c" by (simp add: Cons)
    have "gettok (at_chars (c # r) s) =
      (if isalpha (ord c) then
            (if c # takeWhile is_alnum r = ''def'' then tok_def
             else if c # takeWhile is_alnum r = ''extern'' then tok_extern
             else tok_identifier,
             at_chars (dropWhile is_alnum r) (s\<lparr>IdentifierStr := c # takeWhile is_alnum r\<rparr>))
          else if is_numch c then
            (tok_number,
             at_chars (dropWhile is_numch r) (s\<lparr>NumVal := strtod (c # takeWhile is_numch r)\<rparr>))
          else if c = CHR ''#'' then
            (case dropWhile in_comment r of
               [] \<Rightarrow> (tok_eof, at_chars [] s)
             | e # ys \<Rightarrow> gettok (at_chars (e # ys) s))
          else (ord c, at_chars r s))"
    proof (cases "c = CHR ''#''")
      case True
      have "\<not> isalpha 35" "\<not> isdigit 35" "\<not> isspace 35"
        by (simp_all add: isalpha_def isdigit_def isspace_def)
      then have "gettok (at_chars (CHR ''#'' # r) s) =
          (if LastChar (at_chars (dropWhile in_comment r) s) \<noteq> EOF
           then gettok (at_chars (dropWhile in_comment r) s)
           else gettok_char (at_chars (dropWhile in_comment r) s))"
        by (subst gettok.simps)
          (simp add: skip_whitespace_at_chars skip_comment_at_chars Let_def)
      also have "\<dots> = (case dropWhile in_comment r of
               [] \<Rightarrow> (tok_eof, at_chars [] s)
             | e # ys \<Rightarrow> gettok (at_chars (e # ys) s))"
        by (rule after_comment)
      finally show ?thesis
        using True \<open>\<not> isalpha 35\<close> \<open>\<not> isdigit 35\<close> by simp
    next
      case False
      then show ?thesis
        using nsp
        by (simp add: gettok.simps [of "at_chars (c # r) s"] skip_whitespace_at_chars
            gettok_char_def read_identifier_at_chars read_number_at_chars Let_def)
    qed
    then show ?thesis by (simp add: drop Cons)
  qed
qed


lemma tokens_unfold:
  "tokens s = (fst (gettok s), IdentifierStr (snd (gettok s)), NumVal (snd (gettok s)))
                # (if fst (gettok s) = tok_eof then [] else tokens (snd (gettok s)))"
  by (subst tokens.simps) (simp add: case_prod_beta)

lemma tokens_cong: "gettok s = gettok t \<Longrightarrow> tokens s = tokens t"
  by (simp add: tokens_unfold [of s] tokens_unfold [of t])

lemma tokens_step:
  assumes "gettok s = (t, s')" and "gettok u = (t, u')"
    and "IdentifierStr s' = IdentifierStr u'" and "NumVal s' = NumVal u'"
    and "t \<noteq> tok_eof \<Longrightarrow> tokens s' = tokens u'"
  shows "tokens s = tokens u"
  using assms by (simp add: tokens_unfold [of s] tokens_unfold [of u])

lemma elide_comments_append:
  "CHR ''#'' \<notin> set xs \<Longrightarrow> elide_comments (xs @ ys) = xs @ elide_comments ys"
  by (induction xs) auto

lemma elide_comments_hash_Nil:
  assumes "dropWhile in_comment r = []"
  shows "elide_comments (CHR ''#'' # r) = []"
  by (simp add: assms)

lemma elide_comments_hash_Cons:
  assumes "dropWhile in_comment r = e # ys"
  shows "e = CHR 0x0A \<or> e = CHR 0x0D" and "elide_comments (CHR ''#'' # r) = e # elide_comments ys"
proof -
  have "\<not> in_comment (hd (dropWhile in_comment r))"
    by (rule hd_dropWhile) (simp add: assms)
  then show e: "e = CHR 0x0A \<or> e = CHR 0x0D" by (simp add: assms)
  then have "e \<noteq> CHR ''#''" by auto
  then show "elide_comments (CHR ''#'' # r) = e # elide_comments ys" by (simp add: assms)
qed

lemma elide_comments_While:
  assumes "\<not> P CHR ''#''" and "\<not> P (CHR 0x0A)" and "\<not> P (CHR 0x0D)"
  shows "takeWhile P (elide_comments xs) = takeWhile P xs"
    and "dropWhile P (elide_comments xs) = elide_comments (dropWhile P xs)"
proof (induction xs)
  case Nil
  { case 1 show ?case by simp }
  { case 2 show ?case by simp }
next
  case (Cons x xs)
  have stop: "takeWhile P (elide_comments (x # xs)) = [] \<and>
              dropWhile P (elide_comments (x # xs)) = elide_comments (x # xs)" if "\<not> P x"
  proof (cases "x = CHR ''#''")
    case True
    show ?thesis
    proof (cases "dropWhile in_comment xs")
      case Nil
      then show ?thesis
        unfolding True by (simp only: elide_comments_hash_Nil takeWhile.simps dropWhile.simps)
    next
      case c: (Cons e ys)
      from elide_comments_hash_Cons [OF c] assms have "\<not> P e"
        and "elide_comments (CHR ''#'' # xs) = e # elide_comments ys"
        by auto
      then show ?thesis unfolding True by simp
    qed
  next
    case False
    then show ?thesis using that by simp
  qed
  { case 1 show ?case
    proof (cases "P x")
      case True
      then have "x \<noteq> CHR ''#''" using assms by auto
      then show ?thesis using True Cons.IH(1) by simp
    next
      case False
      then show ?thesis using stop by simp
    qed }
  { case 2 show ?case
    proof (cases "P x")
      case True
      then have "x \<noteq> CHR ''#''" using assms by auto
      then show ?thesis using True Cons.IH(2) by simp
    next
      case False
      then show ?thesis using stop by simp
    qed }
qed


lemma gettok_dropWhile_space:
  "gettok (at_chars cs s) = gettok (at_chars (dropWhile is_space cs) s)"
  by (rule gettok_cong) (simp add: skip_whitespace_at_chars)

lemma not_space_simps [simp]: "\<not> isspace 35"
  by (simp add: isspace_def)

lemma not_alnum_simps:
  "\<not> is_alnum CHR ''#''" "\<not> is_alnum (CHR 0x0A)" "\<not> is_alnum (CHR 0x0D)"
  by (simp_all add: isalnum_def isalpha_def isdigit_def)

lemma not_numch_simps:
  "\<not> is_numch CHR ''#''" "\<not> is_numch (CHR 0x0A)" "\<not> is_numch (CHR 0x0D)"
  by (simp_all add: isdigit_def)

lemmas elide_comments_alnum = elide_comments_While [of is_alnum, OF not_alnum_simps]

lemmas elide_comments_numch = elide_comments_While [of is_numch, OF not_numch_simps]

lemma tokens_elide_comments:
  "tokens (at_chars cs s) = tokens (at_chars (elide_comments cs) s)"
proof (induction cs arbitrary: s rule: length_induct)
  case (1 cs)
  let ?sp = "takeWhile is_space cs" and ?r = "dropWhile is_space cs"
  have IH: "tokens (at_chars ys t) = tokens (at_chars (elide_comments ys) t)"
    if "length ys < length cs" for ys t
    using 1 that by blast
  have len: "length ?r \<le> length cs" by (rule length_dropWhile_le)
  have "CHR ''#'' \<notin> set ?sp"
  proof
    assume "CHR ''#'' \<in> set ?sp"
    then have "is_space CHR ''#''" by (rule set_takeWhileD [THEN conjunct2])
    then show False by simp
  qed
  then have "elide_comments (?sp @ ?r) = ?sp @ elide_comments ?r"
    by (rule elide_comments_append)
  then have el: "elide_comments cs = ?sp @ elide_comments ?r" by simp
  have "dropWhile is_space (?sp @ elide_comments ?r) = dropWhile is_space (elide_comments ?r)"
    by (rule dropWhile_append2) (auto dest: set_takeWhileD)
  then have "gettok (at_chars (elide_comments cs) s) = gettok (at_chars (elide_comments ?r) s)"
    using gettok_dropWhile_space [of "elide_comments cs" s]
      gettok_dropWhile_space [of "elide_comments ?r" s] by (simp add: el)
  then have right: "tokens (at_chars (elide_comments cs) s) = tokens (at_chars (elide_comments ?r) s)"
    by (rule tokens_cong)
  have left: "tokens (at_chars cs s) = tokens (at_chars ?r s)"
    by (rule tokens_cong) (rule gettok_dropWhile_space)
  have "tokens (at_chars ?r s) = tokens (at_chars (elide_comments ?r) s)"
  proof (cases ?r)
    case Nil
    show ?thesis by (simp add: Nil)
  next
    case (Cons c r)
    have "\<not> is_space (hd ?r)"
      by (rule hd_dropWhile) (simp add: Cons)
    then have nsp: "\<not> is_space c" by (simp add: Cons)
    from len Cons have lr: "length r < length cs" by simp
    have "tokens (at_chars (c # r) s) = tokens (at_chars (elide_comments (c # r)) s)"
    proof (cases "c = CHR ''#''")
      case True
      show ?thesis
      proof (cases "dropWhile in_comment r")
        case Nil
        have "gettok (at_chars (CHR ''#'' # r) s) = (tok_eof, at_chars [] s)"
          by (subst gettok_at_chars) (simp add: Nil isalpha_def isdigit_def)
        moreover have "gettok (at_chars [] s) = (tok_eof, at_chars [] s)"
          by (subst gettok_at_chars) simp
        ultimately have "tokens (at_chars (CHR ''#'' # r) s) = tokens (at_chars [] s)"
          by (intro tokens_cong) simp
        then show ?thesis
          unfolding True by (simp only: elide_comments_hash_Nil [OF Nil])
      next
        case c2: (Cons e ys)
        note e = elide_comments_hash_Cons [OF c2]
        have "length (dropWhile in_comment r) \<le> length r" by (rule length_dropWhile_le)
        then have le: "length (e # ys) < length cs" using lr by (simp add: c2)
        have "gettok (at_chars (CHR ''#'' # r) s) = gettok (at_chars (e # ys) s)"
          by (subst gettok_at_chars) (simp add: c2 isalpha_def isdigit_def)
        then have "tokens (at_chars (CHR ''#'' # r) s) = tokens (at_chars (e # ys) s)"
          by (rule tokens_cong)
        also have "\<dots> = tokens (at_chars (elide_comments (e # ys)) s)"
          by (rule IH [OF le])
        also have "elide_comments (e # ys) = elide_comments (CHR ''#'' # r)"
          using e by auto
        finally show ?thesis unfolding True .
      qed
    next
      case False
      then have el2: "elide_comments (c # r) = c # elide_comments r" by simp
      consider (ident) "isalpha (ord c)"
        | (num) "\<not> isalpha (ord c)" "is_numch c"
        | (other) "\<not> isalpha (ord c)" "\<not> is_numch c"
        by blast
      then show ?thesis
      proof cases
        case ident
        let ?s' = "s\<lparr>IdentifierStr := c # takeWhile is_alnum r\<rparr>"
        let ?t = "if c # takeWhile is_alnum r = ''def'' then tok_def
             else if c # takeWhile is_alnum r = ''extern'' then tok_extern
             else tok_identifier"
        have a: "gettok (at_chars (c # r) s) = (?t, at_chars (dropWhile is_alnum r) ?s')"
          using nsp ident by (subst gettok_at_chars) simp
        have b: "gettok (at_chars (c # elide_comments r) s) =
            (?t, at_chars (elide_comments (dropWhile is_alnum r)) ?s')"
          using nsp ident
          by (subst gettok_at_chars) (simp add: elide_comments_alnum)
        have "length (dropWhile is_alnum r) \<le> length r" by (rule length_dropWhile_le)
        then have "length (dropWhile is_alnum r) < length cs" using lr by simp
        then have "tokens (at_chars (dropWhile is_alnum r) ?s') =
            tokens (at_chars (elide_comments (dropWhile is_alnum r)) ?s')"
          by (rule IH)
        with a b show ?thesis
          unfolding el2 by (intro tokens_step [OF a b]) simp_all
      next
        case num
        let ?s' = "s\<lparr>NumVal := strtod (c # takeWhile is_numch r)\<rparr>"
        have a: "gettok (at_chars (c # r) s) = (tok_number, at_chars (dropWhile is_numch r) ?s')"
          using nsp num by (subst gettok_at_chars) simp
        have b: "gettok (at_chars (c # elide_comments r) s) =
            (tok_number, at_chars (elide_comments (dropWhile is_numch r)) ?s')"
          using nsp num
          by (subst gettok_at_chars) (simp add: elide_comments_numch)
        have "length (dropWhile is_numch r) \<le> length r" by (rule length_dropWhile_le)
        then have "length (dropWhile is_numch r) < length cs" using lr by simp
        then have "tokens (at_chars (dropWhile is_numch r) ?s') =
            tokens (at_chars (elide_comments (dropWhile is_numch r)) ?s')"
          by (rule IH)
        with a b show ?thesis
          unfolding el2 by (intro tokens_step [OF a b]) simp_all
      next
        case other
        have a: "gettok (at_chars (c # r) s) = (ord c, at_chars r s)"
          using nsp other False by (subst gettok_at_chars) simp
        have b: "gettok (at_chars (c # elide_comments r) s) = (ord c, at_chars (elide_comments r) s)"
          using nsp other False by (subst gettok_at_chars) simp
        have "tokens (at_chars r s) = tokens (at_chars (elide_comments r) s)"
          using lr by (rule IH)
        with a b show ?thesis
          unfolding el2 by (intro tokens_step [OF a b]) simp_all
      qed
    qed
    then show ?thesis by (simp only: Cons)
  qed
  with left right show ?case by simp
qed

lemma initial_state_at_chars: "initial_state inp = at_chars (CHR '' '' # inp) (initial_state [])"
  by (simp add: initial_state_def at_chars_def)

lemma tokenize_elide_comments: "tokenize inp = tokenize (elide_comments inp)"
proof -
  have "tokenize inp = tokens (at_chars (CHR '' '' # inp) (initial_state []))"
    by (simp add: tokenize_def initial_state_at_chars [of inp])
  also have "\<dots> = tokens (at_chars (elide_comments (CHR '' '' # inp)) (initial_state []))"
    by (rule tokens_elide_comments)
  also have "\<dots> = tokenize (elide_comments inp)"
    by (simp add: tokenize_def initial_state_at_chars [of "elide_comments inp"])
  finally show ?thesis .
qed

text \<open>
  C8: comments never produce a token. The input \<^verbatim>\<open>1 + 2 # comment\<close>, new-line,
  \<^verbatim>\<open>+ 3\<close> has the same sequence of tokens, kinds and payloads, as \<^verbatim>\<open>1 + 2 + 3\<close>; and
  for every input, removing the comments (each from its \<open>#\<close> up to the end of its line)
  leaves the sequence of tokens as it is, so no token is made of characters of a comment.
\<close>

theorem C8_comments_elided:
  "tokenize (''1 + 2 # comment'' @ CHR 0x0A # ''+ 3'') = tokenize ''1 + 2 + 3''
   \<and> tokenize inp = tokenize (elide_comments inp)"
proof
  show "tokenize (''1 + 2 # comment'' @ CHR 0x0A # ''+ 3'') = tokenize ''1 + 2 + 3''"
    by code_simp
next
  show "tokenize inp = tokenize (elide_comments inp)"
    by (rule tokenize_elide_comments)
qed

end
